theory Spec2Isabelle
  imports Main "HOL-Library.Word"
begin

section \<open>Python values\<close>

text \<open>
  A parsed JSON document is a tree of dicts, lists and scalars. Python floats are kept as
  their IEEE-754 bit pattern: the extractor never computes with them, it only moves them
  around. Strings are lists of code points below 256, one \<open>char\<close> per code point.
  Dicts are association lists in insertion order; a Python dict never holds a key twice,
  which theorems about dicts assume as \<open>distinct (map fst d)\<close> where it matters.
  Keys are strings, \<open>None\<close> or integers: the keys of a parsed JSON document are
  strings, \<open>normalize_key\<close> also expects \<open>None\<close>, and a column label of a frame
  that was read without a header row is an integer. Other kinds of key (floats, booleans,
  tuples) are outside the model.
\<close>

datatype scalar = SNone | SBool bool | SInt int | SFloat "64 word" | SStr string

datatype pykey = KNone | KStr string | KInt int

datatype node = Scalar scalar | Seq "node list" | Map "(pykey \<times> node) list"

type_synonym pydict = "(pykey \<times> node) list"

text \<open>\<open>float('nan')\<close>, the marker pandas puts into a cell that has no value.\<close>

definition nan :: scalar where
  "nan = SFloat 0x7FF8000000000000"

text \<open>\<open>d[k] = v\<close>: an existing key keeps its position, a new key goes to the end.\<close>

primrec dict_set :: "'k \<Rightarrow> 'v \<Rightarrow> ('k \<times> 'v) list \<Rightarrow> ('k \<times> 'v) list" where
  "dict_set k v [] = [(k, v)]"
| "dict_set k v (e # es) = (if fst e = k then (k, v) # es else e # dict_set k v es)"

definition is_list :: "node \<Rightarrow> bool" where
  "is_list x = (case x of Seq xs \<Rightarrow> True | _ \<Rightarrow> False)"

definition is_scalar :: "node \<Rightarrow> bool" where
  "is_scalar x = (case x of Scalar s \<Rightarrow> True | _ \<Rightarrow> False)"

section \<open>Strings\<close>

definition digit_char :: "nat \<Rightarrow> char" where
  "digit_char d = ''0123456789'' ! d"

text \<open>\<open>str(i)\<close> for an index \<open>i\<close> of \<open>enumerate\<close>.\<close>

fun str_nat :: "nat \<Rightarrow> string" where
  "str_nat n = (if n < 10 then [digit_char n] else str_nat (n div 10) @ [digit_char (n mod 10)])"

declare str_nat.simps [simp del]

text \<open>\<open>str.isspace\<close> on the code points below 256.\<close>

definition is_space :: "char \<Rightarrow> bool" where
  "is_space c = ((of_char c :: nat) \<in> {9, 10, 11, 12, 13, 28, 29, 30, 31, 32, 133, 160})"

definition is_sep :: "char \<Rightarrow> bool" where
  "is_sep c = (c = CHR ''_'')"

text \<open>\<open>s.strip()\<close> is \<open>py_strip is_space s\<close>, \<open>s.strip("_")\<close> is \<open>py_strip is_sep s\<close>.\<close>

definition py_strip :: "(char \<Rightarrow> bool) \<Rightarrow> string \<Rightarrow> string" where
  "py_strip P s = rev (dropWhile P (rev (dropWhile P s)))"

text \<open>\<open>str(i)\<close> for an integer.\<close>

definition str_int :: "int \<Rightarrow> string" where
  "str_int i = (if i < 0 then CHR ''-'' # str_nat (nat (- i)) else str_nat (nat i))"

text \<open>\<open>str(key)\<close>, also what an f-string puts in for \<open>{key}\<close>.\<close>

fun py_str :: "pykey \<Rightarrow> string" where
  "py_str KNone = ''None''"
| "py_str (KStr s) = s"
| "py_str (KInt i) = str_int i"

section \<open>flatten_json\<close>

definition normalize_key :: "pykey \<Rightarrow> string" where
  "normalize_key key =
     (if key = KNone \<or> py_strip is_space (py_str key) = [] then ''unknown'' else py_str key)"

text \<open>\<open>value if value is not None else ""\<close>\<close>

definition leaf_value :: "scalar \<Rightarrow> node" where
  "leaf_value s = Scalar (if s \<noteq> SNone then s else SStr [])"

text \<open>
  The closure \<open>recurse\<close> writes into \<open>out\<close>; here \<open>out\<close> is passed and returned.
  \<open>recurse_items\<close> is the loop over \<open>value.items()\<close>, \<open>recurse_enum\<close> the loop over
  \<open>enumerate(value)\<close>; both get the prefix already normalized by the first line of
  \<open>recurse\<close>.
\<close>

fun recurse :: "node \<Rightarrow> pykey \<Rightarrow> pydict \<Rightarrow> pydict"
and recurse_items :: "(pykey \<times> node) list \<Rightarrow> string \<Rightarrow> pydict \<Rightarrow> pydict"
and recurse_enum :: "node list \<Rightarrow> nat \<Rightarrow> string \<Rightarrow> pydict \<Rightarrow> pydict"
where
  "recurse (Map kvs) key_prefix out = recurse_items kvs (normalize_key key_prefix) out"
| "recurse (Seq xs) key_prefix out = recurse_enum xs 0 (normalize_key key_prefix) out"
| "recurse (Scalar s) key_prefix out =
     dict_set (KStr (normalize_key (KStr (normalize_key key_prefix)))) (leaf_value s) out"
| "recurse_items [] kp out = out"
| "recurse_items ((k, v) # kvs) kp out =
     recurse_items kvs kp (recurse v (KStr (kp @ ''_'' @ normalize_key k)) out)"
| "recurse_enum [] i kp out = out"
| "recurse_enum (x # xs) i kp out =
     recurse_enum xs (Suc i) kp (recurse x (KStr (kp @ ''_'' @ str_nat i)) out)"

definition flatten_json :: "node \<Rightarrow> pykey \<Rightarrow> pydict" where
  "flatten_json data prefix = recurse data prefix []"

section \<open>deep_flatten_value and deep_flatten_row\<close>

fun deep_flatten_value :: "pykey \<Rightarrow> node \<Rightarrow> pydict \<Rightarrow> pydict"
and deep_flatten_items :: "string \<Rightarrow> (pykey \<times> node) list \<Rightarrow> pydict \<Rightarrow> pydict"
and deep_flatten_enum :: "string \<Rightarrow> nat \<Rightarrow> node list \<Rightarrow> pydict \<Rightarrow> pydict"
where
  "deep_flatten_value prefix (Map kvs) out =
     (if prefix = KStr [] \<or> prefix = KNone then out
      else deep_flatten_items (py_str prefix) kvs out)"
| "deep_flatten_value prefix (Seq xs) out =
     (if prefix = KStr [] \<or> prefix = KNone then out
      else deep_flatten_enum (py_str prefix) 0 xs out)"
| "deep_flatten_value prefix (Scalar s) out =
     (if prefix = KStr [] \<or> prefix = KNone then out
      else dict_set prefix (leaf_value s) out)"
| "deep_flatten_items p [] out = out"
| "deep_flatten_items p ((k, v) # kvs) out =
     deep_flatten_items p kvs
       (deep_flatten_value (KStr (py_strip is_sep (p @ ''_'' @ py_str k))) v out)"
| "deep_flatten_enum p i [] out = out"
| "deep_flatten_enum p i (x # xs) out =
     deep_flatten_enum p (Suc i) xs
       (deep_flatten_value (KStr (py_strip is_sep (p @ ''_'' @ str_nat i))) x out)"

definition deep_flatten_row :: "pydict \<Rightarrow> pydict" where
  "deep_flatten_row row = fold (\<lambda>(key, val) flat. deep_flatten_value key val flat) row []"

section \<open>Data frames\<close>

text \<open>
  A pandas \<open>DataFrame\<close> is a row count and the labelled columns, each a list of cells.
  Cells hold the Python objects as they were given (the \<open>object\<close> dtype). pandas
  infers a dtype for every column: in a column of numbers, an integer beside a gap or
  beside a float becomes a float (and an integer above \<open>2^53\<close> is rounded by that),
  and \<open>None\<close> becomes NaN. That conversion is outside this model, so a result about the
  cells of a frame is about frames in which no column mixes integers with gaps, floats or
  \<open>None\<close>. Column labels are unique in every frame that \<open>DataFrame\<close> builds;
  theorems about frames from elsewhere assume it.
\<close>

record dataframe =
  nrows :: nat
  cols :: "(pykey \<times> node list) list"

text \<open>\<open>pd.DataFrame()\<close>\<close>

definition empty_frame :: dataframe where
  "empty_frame = \<lparr>nrows = 0, cols = []\<rparr>"

text \<open>The keys of all records, each at its first appearance.\<close>

definition union_keys :: "pydict list \<Rightarrow> pykey list" where
  "union_keys records = rev (remdups (rev (concat (map (map fst) records))))"

definition cell_of :: "pydict \<Rightarrow> pykey \<Rightarrow> node" where
  "cell_of r c = (case map_of r c of Some v \<Rightarrow> v | None \<Rightarrow> Scalar nan)"

text \<open>\<open>pd.DataFrame(records)\<close> for a list of dicts: a key missing in a record gives NaN.\<close>

definition DataFrame :: "pydict list \<Rightarrow> dataframe" where
  "DataFrame records =
     \<lparr>nrows = length records,
      cols = map (\<lambda>c. (c, map (\<lambda>r. cell_of r c) records)) (union_keys records)\<rparr>"

text \<open>\<open>df.to_dict(orient="records")\<close>\<close>

definition to_dict_records :: "dataframe \<Rightarrow> pydict list" where
  "to_dict_records df = map (\<lambda>i. map (\<lambda>(c, cells). (c, cells ! i)) (cols df)) [0..<nrows df]"

section \<open>normalize_list_columns\<close>

definition cell_len :: "node \<Rightarrow> nat" where
  "cell_len x = (case x of Seq xs \<Rightarrow> length xs | _ \<Rightarrow> 1)"

text \<open>\<open>Series.max()\<close> of a series of lengths; it is only taken of a series with a cell.\<close>

definition series_max :: "nat list \<Rightarrow> nat" where
  "series_max ns = fold max ns 0"

definition pad_cell :: "nat \<Rightarrow> node \<Rightarrow> node" where
  "pad_cell max_len x =
     (case x of
        Seq xs \<Rightarrow> Seq (xs @ replicate (max_len - length xs) (Scalar SNone))
      | _ \<Rightarrow> Seq ([x] @ replicate (max_len - 1) (Scalar SNone)))"

text \<open>
  The body of the loop for one label \<open>col\<close> of \<open>df.columns\<close>. The label is always
  found, so the \<open>None\<close> branch is never taken in \<open>normalize_list_columns\<close>.
\<close>

definition normalize_column :: "pykey \<Rightarrow> dataframe \<Rightarrow> dataframe" where
  "normalize_column col df =
     (case map_of (cols df) col of
        None \<Rightarrow> df
      | Some series \<Rightarrow>
          if list_ex is_list series
          then (let max_len = series_max (map cell_len series)
                in df\<lparr>cols := dict_set col (map (pad_cell max_len) series) (cols df)\<rparr>)
          else df)"

definition normalize_list_columns :: "dataframe \<Rightarrow> dataframe" where
  "normalize_list_columns df = fold normalize_column (map fst (cols df)) df"

section \<open>extract_json_safely\<close>

text \<open>\<open>[(k, v) for k, v in data.items() if isinstance(v, list)]\<close>\<close>

fun list_candidates :: "(pykey \<times> node) list \<Rightarrow> (pykey \<times> node list) list" where
  "list_candidates [] = []"
| "list_candidates ((k, Seq xs) # kvs) = (k, xs) # list_candidates kvs"
| "list_candidates ((k, Scalar s) # kvs) = list_candidates kvs"
| "list_candidates ((k, Map m) # kvs) = list_candidates kvs"

text \<open>
  \<open>max(xs, key=f)\<close> on the non-empty list \<open>b # xs\<close>: the running maximum is replaced only
  by a strictly greater element.
\<close>

fun py_max :: "('a \<Rightarrow> nat) \<Rightarrow> 'a \<Rightarrow> 'a list \<Rightarrow> 'a" where
  "py_max f b [] = b"
| "py_max f b (x # xs) = (if f b < f x then py_max f x xs else py_max f b xs)"

text \<open>The inner loop \<open>for k, v in data.items(): if not isinstance(v, list): flat[k] = v\<close>.\<close>

definition add_non_list_fields :: "(pykey \<times> node) list \<Rightarrow> pydict \<Rightarrow> pydict" where
  "add_non_list_fields kvs flat =
     fold (\<lambda>(k, v) flat. if \<not> is_list v then dict_set k v flat else flat) kvs flat"

text \<open>The list of records that each branch hands to \<open>pd.DataFrame\<close>.\<close>

fun json_rows :: "node \<Rightarrow> pydict list" where
  "json_rows (Seq items) = map (\<lambda>item. flatten_json item (KStr [])) items"
| "json_rows (Map kvs) =
     (case list_candidates kvs of
        [] \<Rightarrow> [flatten_json (Map kvs) (KStr [])]
      | c # cs \<Rightarrow>
          (let (root_key, largest_list) = py_max (\<lambda>x. length (snd x)) c cs
           in map (\<lambda>item. add_non_list_fields kvs (flatten_json item (KStr []))) largest_list))"
| "json_rows (Scalar s) = [[(KStr ''value'', Scalar s)]]"

text \<open>
  The exceptions: a missing file, a failure of \<open>open\<close> or \<open>json.load\<close>, a failure of a
  format reader, the interpreter's \<open>RecursionError\<close>, and a failure of \<open>print\<close> (an
  encoding error or a closed stream).
\<close>

datatype error = FileNotFoundError | LoadError | ReaderError | RecursionError | ConsoleError

text \<open>
  \<open>load\<close> stands for \<open>open\<close> followed by \<open>json.load\<close>: it gives the parsed document or
  raises.
\<close>

definition extract_json_safely :: "(string \<Rightarrow> error + node) \<Rightarrow> string \<Rightarrow> error + dataframe" where
  "extract_json_safely load filepath =
     (case load filepath of
        Inl e \<Rightarrow> Inl e
      | Inr data \<Rightarrow> Inr (DataFrame (json_rows data)))"

section \<open>extract_data\<close>

text \<open>\<open>os.path.splitext(p)[1]\<close> of \<open>posixpath\<close>.\<close>

definition basename :: "string \<Rightarrow> string" where
  "basename p = rev (takeWhile (\<lambda>c. c \<noteq> CHR ''/'') (rev p))"

definition splitext_ext :: "string \<Rightarrow> string" where
  "splitext_ext p =
     (let b = basename p;
          ext = rev (takeWhile (\<lambda>c. c \<noteq> CHR ''.'') (rev b));
          stem = take (length b - length ext - 1) b
      in if CHR ''.'' \<in> set b \<and> list_ex (\<lambda>c. c \<noteq> CHR ''.'') stem then CHR ''.'' # ext else [])"

definition lower_char :: "char \<Rightarrow> char" where
  "lower_char c =
     (let n = (of_char c :: nat)
      in if (65 \<le> n \<and> n \<le> 90) \<or> (192 \<le> n \<and> n \<le> 222 \<and> n \<noteq> 215) then char_of (n + 32) else c)"

definition detect_file_type :: "string \<Rightarrow> string" where
  "detect_file_type file_path = filter (\<lambda>c. c \<noteq> CHR ''.'') (map lower_char (splitext_ext file_path))"

text \<open>
  What \<open>extract_data\<close> sees of the world: which paths exist, what loading a JSON file
  gives, and the table \<open>READERS\<close> of the format readers, which lives in another module.
\<close>

record env =
  path_exists :: "string \<Rightarrow> bool"
  json_load :: "string \<Rightarrow> error + node"
  READERS :: "string \<Rightarrow> (string \<Rightarrow> error + dataframe) option"

text \<open>Rectangularization and the final deep flattening of every record.\<close>

definition finish :: "dataframe \<Rightarrow> dataframe" where
  "finish df = DataFrame (map deep_flatten_row (to_dict_records (normalize_list_columns df)))"

text \<open>
  \<open>extract_data\<close> is modelled twice. Here it is the frame that the call returns when
  every \<open>print\<close> returns and no walk reaches the recursion limit: the data flow of the
  function, with the three exceptions that come from the files. The section after this one
  models the call itself, with its prints and the recursion limit, as
  \<open>extract_data_call\<close>; whenever the body of that call completes, its frame is the one
  given here (lemma \<open>extract_data_body_sound\<close>).

  The body of the \<open>try\<close>: \<open>Inl\<close> is a raised exception, \<open>Inr\<close> a returned frame.
\<close>

definition extract_data_try :: "env \<Rightarrow> string \<Rightarrow> error + dataframe" where
  "extract_data_try e file_path =
     (if \<not> path_exists e file_path then Inl FileNotFoundError
      else let file_type = detect_file_type file_path
           in if file_type = ''json''
              then (case extract_json_safely (json_load e) file_path of
                      Inl x \<Rightarrow> Inl x
                    | Inr df \<Rightarrow> Inr (finish df))
              else (case READERS e file_type of
                      None \<Rightarrow> Inr empty_frame
                    | Some reader \<Rightarrow>
                        (case reader file_path of
                           Inl x \<Rightarrow> Inl x
                         | Inr df \<Rightarrow> Inr (finish df))))"

text \<open>\<open>except Exception\<close> turns every raised exception into the empty frame.\<close>

definition extract_data :: "env \<Rightarrow> string \<Rightarrow> dataframe" where
  "extract_data e file_path =
     (case extract_data_try e file_path of
        Inl x \<Rightarrow> empty_frame
      | Inr df \<Rightarrow> df)"

section \<open>The call of extract_data, with its console and the recursion limit\<close>

text \<open>
  The nesting depth of a document: the number of calls of a recursive walker that are
  active at once when it stands at the deepest leaf.
\<close>

fun height :: "node \<Rightarrow> nat"
and height_items :: "(pykey \<times> node) list \<Rightarrow> nat"
and height_list :: "node list \<Rightarrow> nat"
where
  "height (Scalar s) = 1"
| "height (Seq xs) = Suc (height_list xs)"
| "height (Map kvs) = Suc (height_items kvs)"
| "height_items [] = 0"
| "height_items ((k, v) # kvs) = max (height v) (height_items kvs)"
| "height_list [] = 0"
| "height_list (x # xs) = max (height x) (height_list xs)"

text \<open>
  \<open>recurse\<close> under the interpreter's recursion limit: \<open>n\<close> is the number of calls of
  \<open>recurse\<close> that may still be nested, and a call beyond that raises \<open>RecursionError\<close>,
  which ends the walk.
\<close>

fun recurse_lim :: "nat \<Rightarrow> node \<Rightarrow> pykey \<Rightarrow> pydict \<Rightarrow> error + pydict"
and recurse_items_lim :: "nat \<Rightarrow> (pykey \<times> node) list \<Rightarrow> string \<Rightarrow> pydict \<Rightarrow> error + pydict"
and recurse_enum_lim :: "nat \<Rightarrow> node list \<Rightarrow> nat \<Rightarrow> string \<Rightarrow> pydict \<Rightarrow> error + pydict"
where
  "recurse_lim 0 v key_prefix out = Inl RecursionError"
| "recurse_lim (Suc n) (Map kvs) key_prefix out =
     recurse_items_lim n kvs (normalize_key key_prefix) out"
| "recurse_lim (Suc n) (Seq xs) key_prefix out =
     recurse_enum_lim n xs 0 (normalize_key key_prefix) out"
| "recurse_lim (Suc n) (Scalar s) key_prefix out =
     Inr (dict_set (KStr (normalize_key (KStr (normalize_key key_prefix)))) (leaf_value s) out)"
| "recurse_items_lim n [] kp out = Inr out"
| "recurse_items_lim n ((k, v) # kvs) kp out =
     (case recurse_lim n v (KStr (kp @ ''_'' @ normalize_key k)) out of
        Inl e \<Rightarrow> Inl e
      | Inr out' \<Rightarrow> recurse_items_lim n kvs kp out')"
| "recurse_enum_lim n [] i kp out = Inr out"
| "recurse_enum_lim n (x # xs) i kp out =
     (case recurse_lim n x (KStr (kp @ ''_'' @ str_nat i)) out of
        Inl e \<Rightarrow> Inl e
      | Inr out' \<Rightarrow> recurse_enum_lim n xs (Suc i) kp out')"

definition flatten_json_lim :: "nat \<Rightarrow> node \<Rightarrow> pykey \<Rightarrow> error + pydict" where
  "flatten_json_lim n data prefix = recurse_lim n data prefix []"

text \<open>\<open>deep_flatten_value\<close> under the recursion limit, in the same way.\<close>

fun deep_flatten_value_lim :: "nat \<Rightarrow> pykey \<Rightarrow> node \<Rightarrow> pydict \<Rightarrow> error + pydict"
and deep_flatten_items_lim :: "nat \<Rightarrow> string \<Rightarrow> (pykey \<times> node) list \<Rightarrow> pydict \<Rightarrow> error + pydict"
and deep_flatten_enum_lim :: "nat \<Rightarrow> string \<Rightarrow> nat \<Rightarrow> node list \<Rightarrow> pydict \<Rightarrow> error + pydict"
where
  "deep_flatten_value_lim 0 prefix v out = Inl RecursionError"
| "deep_flatten_value_lim (Suc n) prefix (Map kvs) out =
     (if prefix = KStr [] \<or> prefix = KNone then Inr out
      else deep_flatten_items_lim n (py_str prefix) kvs out)"
| "deep_flatten_value_lim (Suc n) prefix (Seq xs) out =
     (if prefix = KStr [] \<or> prefix = KNone then Inr out
      else deep_flatten_enum_lim n (py_str prefix) 0 xs out)"
| "deep_flatten_value_lim (Suc n) prefix (Scalar s) out =
     (if prefix = KStr [] \<or> prefix = KNone then Inr out
      else Inr (dict_set prefix (leaf_value s) out))"
| "deep_flatten_items_lim n p [] out = Inr out"
| "deep_flatten_items_lim n p ((k, v) # kvs) out =
     (case deep_flatten_value_lim n (KStr (py_strip is_sep (p @ ''_'' @ py_str k))) v out of
        Inl e \<Rightarrow> Inl e
      | Inr out' \<Rightarrow> deep_flatten_items_lim n p kvs out')"
| "deep_flatten_enum_lim n p i [] out = Inr out"
| "deep_flatten_enum_lim n p i (x # xs) out =
     (case deep_flatten_value_lim n (KStr (py_strip is_sep (p @ ''_'' @ str_nat i))) x out of
        Inl e \<Rightarrow> Inl e
      | Inr out' \<Rightarrow> deep_flatten_enum_lim n p (Suc i) xs out')"

text \<open>The loop of \<open>deep_flatten_row\<close>, ended by the first exception.\<close>

fun deep_flatten_pairs_lim :: "nat \<Rightarrow> pydict \<Rightarrow> pydict \<Rightarrow> error + pydict" where
  "deep_flatten_pairs_lim n [] flat = Inr flat"
| "deep_flatten_pairs_lim n ((key, val) # row) flat =
     (case deep_flatten_value_lim n key val flat of
        Inl e \<Rightarrow> Inl e
      | Inr flat' \<Rightarrow> deep_flatten_pairs_lim n row flat')"

definition deep_flatten_row_lim :: "nat \<Rightarrow> pydict \<Rightarrow> error + pydict" where
  "deep_flatten_row_lim n row = deep_flatten_pairs_lim n row []"

text \<open>A loop or comprehension that builds a list and is ended by the first exception.\<close>

fun try_map :: "('a \<Rightarrow> error + 'b) \<Rightarrow> 'a list \<Rightarrow> error + 'b list" where
  "try_map f [] = Inr []"
| "try_map f (x # xs) =
     (case f x of
        Inl e \<Rightarrow> Inl e
      | Inr y \<Rightarrow> (case try_map f xs of Inl e \<Rightarrow> Inl e | Inr ys \<Rightarrow> Inr (y # ys)))"

fun json_rows_lim :: "nat \<Rightarrow> node \<Rightarrow> error + pydict list" where
  "json_rows_lim n (Seq items) = try_map (\<lambda>item. flatten_json_lim n item (KStr [])) items"
| "json_rows_lim n (Map kvs) =
     (case list_candidates kvs of
        [] \<Rightarrow> try_map (\<lambda>data. flatten_json_lim n data (KStr [])) [Map kvs]
      | c # cs \<Rightarrow>
          (let (root_key, largest_list) = py_max (\<lambda>x. length (snd x)) c cs
           in try_map (\<lambda>item. case flatten_json_lim n item (KStr []) of
                                  Inl e \<Rightarrow> Inl e
                                | Inr flat \<Rightarrow> Inr (add_non_list_fields kvs flat)) largest_list))"
| "json_rows_lim n (Scalar s) = Inr [[(KStr ''value'', Scalar s)]]"

definition extract_json_safely_lim ::
  "nat \<Rightarrow> (string \<Rightarrow> error + node) \<Rightarrow> string \<Rightarrow> error + dataframe" where
  "extract_json_safely_lim n load filepath =
     (case load filepath of
        Inl e \<Rightarrow> Inl e
      | Inr data \<Rightarrow>
          (case json_rows_lim n data of
             Inl e \<Rightarrow> Inl e
           | Inr rows \<Rightarrow> Inr (DataFrame rows)))"

definition finish_lim :: "nat \<Rightarrow> dataframe \<Rightarrow> error + dataframe" where
  "finish_lim n df =
     (case try_map (deep_flatten_row_lim n) (to_dict_records (normalize_list_columns df)) of
        Inl e \<Rightarrow> Inl e
      | Inr flat_records \<Rightarrow> Inr (DataFrame flat_records))"

text \<open>
  The four \<open>print\<close> calls of \<open>extract_data\<close>, each with the values its text is built
  from (the elapsed time apart).
\<close>

datatype message =
    Detected string
  | Unsupported string
  | Extracted nat string
  | ExtractionError error

text \<open>
  What a call of \<open>extract_data\<close> depends on besides the files: whether \<open>print\<close> of a
  message returns (\<open>None\<close>) or raises, and how deep the two walkers may nest before the
  recursion limit is reached.
\<close>

record runtime =
  console :: "message \<Rightarrow> error option"
  json_depth :: nat
  row_depth :: nat

text \<open>The body of the \<open>try\<close> with its prints and the recursion limit.\<close>

definition extract_data_body :: "runtime \<Rightarrow> env \<Rightarrow> string \<Rightarrow> error + dataframe" where
  "extract_data_body rt e file_path =
     (if \<not> path_exists e file_path then Inl FileNotFoundError
      else let file_type = detect_file_type file_path
           in case console rt (Detected file_type) of
                Some x \<Rightarrow> Inl x
              | None \<Rightarrow>
                  (case (if file_type = ''json''
                         then (case extract_json_safely_lim (json_depth rt) (json_load e) file_path of
                                 Inl x \<Rightarrow> Inl x
                               | Inr df \<Rightarrow> Inr (Some df))
                         else (case READERS e file_type of
                                 None \<Rightarrow>
                                   (case console rt (Unsupported file_type) of
                                      Some x \<Rightarrow> Inl x
                                    | None \<Rightarrow> Inr None)
                               | Some reader \<Rightarrow>
                                   (case reader file_path of
                                      Inl x \<Rightarrow> Inl x
                                    | Inr df \<Rightarrow> Inr (Some df)))) of
                     Inl x \<Rightarrow> Inl x
                   | Inr None \<Rightarrow> Inr empty_frame
                   | Inr (Some df) \<Rightarrow>
                       (case finish_lim (row_depth rt) df of
                          Inl x \<Rightarrow> Inl x
                        | Inr df' \<Rightarrow>
                            (case console rt (Extracted (nrows df') file_path) of
                               Some x \<Rightarrow> Inl x
                             | None \<Rightarrow> Inr df'))))"

text \<open>
  The call of \<open>extract_data\<close>: the handler prints the exception and returns the empty
  frame; an exception raised by that \<open>print\<close> leaves the call.
\<close>

definition extract_data_call :: "runtime \<Rightarrow> env \<Rightarrow> string \<Rightarrow> error + dataframe" where
  "extract_data_call rt e file_path =
     (case extract_data_body rt e file_path of
        Inr df \<Rightarrow> Inr df
      | Inl x \<Rightarrow>
          (case console rt (ExtractionError x) of
             Some y \<Rightarrow> Inl y
           | None \<Rightarrow> Inr empty_frame))"

section \<open>Leaves and path keys\<close>

text \<open>
  The scalar leaves of a document in document order, each with its path key: the key of
  the node, joined by the separator with the normalized key or the index of every step
  down to the leaf. This is the specification's Path Key for \<open>flatten_json\<close>; it is
  defined without an accumulator, to be compared with the rows that the walkers build.
\<close>

fun json_leaves :: "string \<Rightarrow> node \<Rightarrow> (string \<times> scalar) list"
and json_leaves_items :: "string \<Rightarrow> (pykey \<times> node) list \<Rightarrow> (string \<times> scalar) list"
and json_leaves_enum :: "string \<Rightarrow> nat \<Rightarrow> node list \<Rightarrow> (string \<times> scalar) list"
where
  "json_leaves kp (Scalar s) = [(kp, s)]"
| "json_leaves kp (Seq xs) = json_leaves_enum kp 0 xs"
| "json_leaves kp (Map kvs) = json_leaves_items kp kvs"
| "json_leaves_items kp [] = []"
| "json_leaves_items kp ((k, v) # kvs) =
     json_leaves (kp @ ''_'' @ normalize_key k) v @ json_leaves_items kp kvs"
| "json_leaves_enum kp i [] = []"
| "json_leaves_enum kp i (x # xs) =
     json_leaves (kp @ ''_'' @ str_nat i) x @ json_leaves_enum kp (Suc i) xs"

text \<open>
  The leaves that the row re-flattener reaches, with the keys it composes: the prefix and
  the key or index joined by the separator and stripped of leading and trailing
  separators. What lies under an empty or null prefix is not reached.
\<close>

fun deep_leaves :: "pykey \<Rightarrow> node \<Rightarrow> (pykey \<times> scalar) list"
and deep_leaves_items :: "string \<Rightarrow> (pykey \<times> node) list \<Rightarrow> (pykey \<times> scalar) list"
and deep_leaves_enum :: "string \<Rightarrow> nat \<Rightarrow> node list \<Rightarrow> (pykey \<times> scalar) list"
where
  "deep_leaves p (Scalar s) = (if p = KStr [] \<or> p = KNone then [] else [(p, s)])"
| "deep_leaves p (Seq xs) = (if p = KStr [] \<or> p = KNone then [] else deep_leaves_enum (py_str p) 0 xs)"
| "deep_leaves p (Map kvs) = (if p = KStr [] \<or> p = KNone then [] else deep_leaves_items (py_str p) kvs)"
| "deep_leaves_items q [] = []"
| "deep_leaves_items q ((k, v) # kvs) =
     deep_leaves (KStr (py_strip is_sep (q @ ''_'' @ py_str k))) v @ deep_leaves_items q kvs"
| "deep_leaves_enum q i [] = []"
| "deep_leaves_enum q i (x # xs) =
     deep_leaves (KStr (py_strip is_sep (q @ ''_'' @ str_nat i))) x @ deep_leaves_enum q (Suc i) xs"

definition row_leaves :: "pydict \<Rightarrow> (pykey \<times> scalar) list" where
  "row_leaves row = concat (map (\<lambda>(k, v). deep_leaves k v) row)"

section \<open>Example inputs\<close>

text \<open>
  The document
  \<^verbatim>\<open>{"id": 1, "items": [{"sku": "A", "tags": ["x","y"]}, {"sku": "B", "tags": ["z"]}]}\<close>,
  a world in which it is the content of \<open>data.json\<close>, and the frame the extractor gives for it.
\<close>

definition example_doc :: node where
  "example_doc =
     Map [(KStr ''id'', Scalar (SInt 1)),
          (KStr ''items'',
           Seq [Map [(KStr ''sku'', Scalar (SStr ''A'')),
                     (KStr ''tags'', Seq [Scalar (SStr ''x''), Scalar (SStr ''y'')])],
                Map [(KStr ''sku'', Scalar (SStr ''B'')),
                     (KStr ''tags'', Seq [Scalar (SStr ''z'')])]])]"

definition example_env :: env where
  "example_env =
     \<lparr>path_exists = (\<lambda>p. p = ''data.json''),
      json_load = (\<lambda>p. if p = ''data.json'' then Inr example_doc else Inl LoadError),
      READERS = (\<lambda>t. None)\<rparr>"

definition example_frame :: dataframe where
  "example_frame =
     \<lparr>nrows = 2,
      cols = [(KStr ''unknown_sku'', [Scalar (SStr ''A''), Scalar (SStr ''B'')]),
              (KStr ''unknown_tags_0'', [Scalar (SStr ''x''), Scalar (SStr ''z'')]),
              (KStr ''unknown_tags_1'', [Scalar (SStr ''y''), Scalar nan]),
              (KStr ''id'', [Scalar (SInt 1), Scalar (SInt 1)])]\<rparr>"

text \<open>A key that is a non-empty string and does not begin with the separator.\<close>

definition clean_key :: "pykey \<Rightarrow> bool" where
  "clean_key k = (\<exists>s. k = KStr s \<and> s \<noteq> [] \<and> hd s \<noteq> CHR ''_'')"

text \<open>The lengths of the list cells of a series, and the specification's \<open>max_len\<close>:
  the maximum length among the list-valued cells only. It is compared with the
  \<open>max_len\<close> that \<open>normalize_list_columns\<close> computes.\<close>

fun seq_lengths :: "node list \<Rightarrow> nat list" where
  "seq_lengths [] = []"
| "seq_lengths (Seq xs # cells) = length xs # seq_lengths cells"
| "seq_lengths (Scalar s # cells) = seq_lengths cells"
| "seq_lengths (Map m # cells) = seq_lengths cells"

definition spec_max_len :: "node list \<Rightarrow> nat" where
  "spec_max_len series = fold max (seq_lengths series) 0"

text \<open>A column whose only list cell is empty, beside a scalar cell.\<close>

definition ragged_frame :: dataframe where
  "ragged_frame = \<lparr>nrows = 2, cols = [(KStr ''c'', [Seq [], Scalar (SInt 5)])]\<rparr>"

text \<open>A frame with a scalar column and a column that mixes a list with a scalar.\<close>

definition mixed_frame :: dataframe where
  "mixed_frame =
     \<lparr>nrows = 2,
      cols = [(KStr ''a'', [Scalar (SInt 1), Scalar (SInt 2)]),
              (KStr ''b'', [Seq [Scalar (SStr ''x''), Scalar (SStr ''y'')], Scalar SNone])]\<rparr>"

text \<open>A root dict with two list-valued fields, of lengths 3 and 5, and two other fields.\<close>

definition two_lists_doc :: "(pykey \<times> node) list" where
  "two_lists_doc =
     [(KStr ''name'', Scalar (SStr ''n'')),
      (KStr ''short'', Seq [Scalar (SInt 1), Scalar (SInt 2), Scalar (SInt 3)]),
      (KStr ''meta'', Map [(KStr ''v'', Scalar (SInt 7))]),
      (KStr ''long'', Seq [Scalar (SInt 1), Scalar (SInt 2), Scalar (SInt 3), Scalar (SInt 4), Scalar (SInt 5)])]"

text \<open>
  A root dict whose field \<open>unknown_sku\<close> has the key that flattening an element gives
  to \<open>sku\<close>, and a field under the empty key.
\<close>

definition collision_doc :: "(pykey \<times> node) list" where
  "collision_doc =
     [(KStr ''unknown_sku'', Map [(KStr ''x'', Scalar (SInt 1))]),
      (KStr [], Scalar (SInt 2)),
      (KStr ''items'', Seq [Map [(KStr ''sku'', Scalar (SStr ''A'')), (KStr ''qty'', Scalar (SInt 3))]])]"

text \<open>
  A root dict whose two list-valued fields have the same length, so that the choice between
  them shows in the rows.
\<close>

definition tie_doc :: "(pykey \<times> node) list" where
  "tie_doc =
     [(KStr ''a'', Seq [Scalar (SInt 1), Scalar (SInt 2)]),
      (KStr ''b'', Seq [Scalar (SInt 3), Scalar (SInt 4)]),
      (KStr ''k'', Scalar (SStr ''v''))]"

text \<open>A document with null leaves below a dict and below a list.\<close>

definition nested_nulls_doc :: node where
  "nested_nulls_doc =
     Map [(KStr ''a'', Map [(KStr ''b'', Scalar SNone)]),
          (KStr ''c'', Seq [Scalar SNone, Scalar (SInt 1)])]"

text \<open>
  A dict in which the path key of a null leaf, \<open>a_b\<close>, is also the key of a later
  field.
\<close>

definition overwritten_doc :: "(pykey \<times> node) list" where
  "overwritten_doc =
     [(KStr ''a'', Map [(KStr ''b'', Scalar SNone)]),
      (KStr ''a_b'', Scalar (SInt 1))]"

text \<open>
  Three runtimes: one in which every \<open>print\<close> returns and the walkers may nest 900
  deep, one in which \<open>recurse\<close> may nest only 2 deep, and one whose console raises on
  every message (a stream that cannot encode the symbols the messages begin with).
\<close>

definition quiet_runtime :: runtime where
  "quiet_runtime = \<lparr>console = (\<lambda>m. None), json_depth = 900, row_depth = 900\<rparr>"



section \<open>The end-to-end example\<close>

lemma example_pipeline: "finish (DataFrame (json_rows example_doc)) = example_frame"
  by code_simp

lemma example_records:
  "to_dict_records example_frame =
     [[(KStr ''unknown_sku'', Scalar (SStr ''A'')), (KStr ''unknown_tags_0'', Scalar (SStr ''x'')),
       (KStr ''unknown_tags_1'', Scalar (SStr ''y'')), (KStr ''id'', Scalar (SInt 1))],
      [(KStr ''unknown_sku'', Scalar (SStr ''B'')), (KStr ''unknown_tags_0'', Scalar (SStr ''z'')),
       (KStr ''unknown_tags_1'', Scalar nan), (KStr ''id'', Scalar (SInt 1))]]"
  by code_simp

lemma example_type: "detect_file_type ''data.json'' = ''json''"
  by code_simp

lemma example_run: "extract_data example_env ''data.json'' = example_frame"
  by (simp add: extract_data_def extract_data_try_def extract_json_safely_def example_pipeline
      example_env_def example_type)

text \<open>
  C1 (as amended). For the example document the extractor gives two rows with the columns
  \<open>unknown_sku\<close>, \<open>unknown_tags_0\<close>, \<open>unknown_tags_1\<close>, \<open>id\<close>: row 1 has
  \<open>unknown_sku = "A"\<close>, \<open>unknown_tags_0 = "x"\<close>, \<open>unknown_tags_1 = "y"\<close>, \<open>id = 1\<close>;
  row 2 has \<open>unknown_sku = "B"\<close>, \<open>unknown_tags_0 = "z"\<close>, \<open>id = 1\<close> and NaN, the
  missing-cell marker of the frame, in \<open>unknown_tags_1\<close>. The key of the chosen list
  (\<open>items\<close>) is no part of any column name.
\<close>

theorem end_to_end_example:
  assumes "path_exists e p" and "detect_file_type p = ''json''" and "json_load e p = Inr example_doc"
  shows "extract_data e p = example_frame \<and>
         to_dict_records (extract_data e p) =
           [[(KStr ''unknown_sku'', Scalar (SStr ''A'')), (KStr ''unknown_tags_0'', Scalar (SStr ''x'')),
             (KStr ''unknown_tags_1'', Scalar (SStr ''y'')), (KStr ''id'', Scalar (SInt 1))],
            [(KStr ''unknown_sku'', Scalar (SStr ''B'')), (KStr ''unknown_tags_0'', Scalar (SStr ''z'')),
             (KStr ''unknown_tags_1'', Scalar nan), (KStr ''id'', Scalar (SInt 1))]]"
proof -
  have "extract_data e p = example_frame"
    using assms
    by (simp add: extract_data_def extract_data_try_def extract_json_safely_def example_pipeline)
  then show ?thesis by (simp add: example_records)
qed

theorem end_to_end_example_witness:
  "path_exists example_env ''data.json'' \<and> detect_file_type ''data.json'' = ''json'' \<and>
   json_load example_env ''data.json'' = Inr example_doc \<and>
   extract_data example_env ''data.json'' = example_frame"
proof -
  have a: "path_exists example_env ''data.json''" by (simp add: example_env_def)
  have b: "json_load example_env ''data.json'' = Inr example_doc" by (simp add: example_env_def)
  show ?thesis using a b example_type end_to_end_example [OF a example_type b] by simp
qed

text \<open>
  The rows as the specification gives them do not come out: row 1 has no \<open>items_sku\<close>,
  and row 2 has neither \<open>items_tags_1\<close> nor an empty string for the missing tag.
\<close>

theorem end_to_end_example_counterexample:
  "map_of (to_dict_records (extract_data example_env ''data.json'') ! 0) (KStr ''items_sku'')
     \<noteq> Some (Scalar (SStr ''A'')) \<and>
   map_of (to_dict_records (extract_data example_env ''data.json'') ! 1) (KStr ''items_tags_1'')
     \<noteq> Some (Scalar (SStr [])) \<and>
   map_of (to_dict_records (extract_data example_env ''data.json'') ! 0) (KStr ''unknown_sku'')
     = Some (Scalar (SStr ''A'')) \<and>
   map_of (to_dict_records (extract_data example_env ''data.json'') ! 1) (KStr ''unknown_tags_1'')
     = Some (Scalar nan) \<and>
   Scalar nan \<noteq> Scalar (SStr [])"
  by (simp add: example_run example_records nan_def)

section \<open>Dictionaries, strings and keys\<close>

lemma dict_set_keys: "fst ` set (dict_set k v d) = insert k (fst ` set d)"
  by (induction d) auto

lemma dict_set_vals: "snd ` set (dict_set k v d) \<subseteq> insert v (snd ` set d)"
  by (induction d) auto

lemma map_of_dict_set: "map_of (dict_set k v d) = (map_of d)(k \<mapsto> v)"
  by (induction d) auto

lemma dict_set_append: "k \<notin> fst ` set d \<Longrightarrow> dict_set k v d = d @ [(k, v)]"
  by (induction d) auto

lemma dict_set_labels:
  "map fst (dict_set k v d) = (if k \<in> fst ` set d then map fst d else map fst d @ [k])"
  by (induction d) auto

lemma py_strip_Nil: "py_strip P [] = []"
  by (simp add: py_strip_def)

lemma py_strip_keeps: "\<exists>c\<in>set s. \<not> P c \<Longrightarrow> py_strip P s \<noteq> []"
proof -
  assume a: "\<exists>c\<in>set s. \<not> P c"
  then have "dropWhile P s \<noteq> []" by (simp add: dropWhile_eq_Nil_conv)
  moreover have "\<exists>c\<in>set (dropWhile P s). \<not> P c"
    using calculation hd_dropWhile hd_in_set by blast
  then have "\<exists>c\<in>set (rev (dropWhile P s)). \<not> P c" by simp
  then have "dropWhile P (rev (dropWhile P s)) \<noteq> []"
    by (simp only: dropWhile_eq_Nil_conv) blast
  then show ?thesis by (simp add: py_strip_def)
qed

lemma py_strip_hd: "py_strip P s \<noteq> [] \<Longrightarrow> \<not> P (hd (py_strip P s))"
proof -
  assume a: "py_strip P s \<noteq> []"
  have n: "dropWhile P s \<noteq> []"
  proof
    assume e: "dropWhile P s = []"
    have "py_strip P s = rev (dropWhile P (rev (dropWhile P s)))" by (simp add: py_strip_def)
    also have "\<dots> = []" unfolding e by simp
    finally show False using a by simp
  qed
  then obtain x u where u: "dropWhile P s = x # u" by (cases "dropWhile P s") auto
  have px: "\<not> P x" using hd_dropWhile [OF n] u by simp
  have "dropWhile P (rev u @ [x]) = dropWhile P (rev u) @ [x]"
    using px by (simp add: dropWhile_append3)
  then have "py_strip P s = x # rev (dropWhile P (rev u))"
    by (simp add: py_strip_def u)
  then show ?thesis using px by simp
qed

lemma normalize_key_nonempty: "normalize_key k \<noteq> []"
  by (auto simp: normalize_key_def py_strip_Nil)

lemma unknown_not_blank: "py_strip is_space ''unknown'' \<noteq> []"
  by (rule py_strip_keeps) (simp add: is_space_def)

lemma normalize_key_idem: "normalize_key (KStr (normalize_key k)) = normalize_key k"
  using unknown_not_blank by (simp add: normalize_key_def)

lemma normalize_key_composed: "normalize_key (KStr (kp @ CHR ''_'' # s)) = kp @ CHR ''_'' # s"
proof -
  have "py_strip is_space (kp @ CHR ''_'' # s) \<noteq> []"
    by (rule py_strip_keeps) (auto simp: is_space_def)
  then show ?thesis by (simp add: normalize_key_def)
qed

lemma recurse_invariant:
  assumes step: "\<And>k s out. P out \<Longrightarrow> P (dict_set (KStr (normalize_key k)) (leaf_value s) out)"
  shows "P out \<Longrightarrow> P (recurse v p out)"
    and "P out \<Longrightarrow> P (recurse_items kvs kp out)"
    and "P out \<Longrightarrow> P (recurse_enum xs i kp out)"
  by (induction v p out and kvs kp out and xs i kp out
      rule: recurse_recurse_items_recurse_enum.induct)
     (simp_all add: normalize_key_idem step)

lemma deep_flatten_invariant:
  assumes step: "\<And>k s out. k \<noteq> KStr [] \<Longrightarrow> k \<noteq> KNone \<Longrightarrow> P out \<Longrightarrow> P (dict_set k (leaf_value s) out)"
  shows "P out \<Longrightarrow> P (deep_flatten_value p v out)"
    and "P out \<Longrightarrow> P (deep_flatten_items q kvs out)"
    and "P out \<Longrightarrow> P (deep_flatten_enum q i xs out)"
  by (induction p v out and q kvs out and q i xs out
      rule: deep_flatten_value_deep_flatten_items_deep_flatten_enum.induct)
     (simp_all add: step)

lemma deep_flatten_row_invariant:
  assumes step: "\<And>k s out. k \<noteq> KStr [] \<Longrightarrow> k \<noteq> KNone \<Longrightarrow> P out \<Longrightarrow> P (dict_set k (leaf_value s) out)"
    and init: "P []"
  shows "P (deep_flatten_row row)"
proof -
  have "P acc \<Longrightarrow> P (fold (\<lambda>(key, val) flat. deep_flatten_value key val flat) row acc)" for acc
  proof (induction row arbitrary: acc)
    case Nil
    then show ?case by simp
  next
    case (Cons a row)
    obtain k v where a: "a = (k, v)" by (cases a)
    have "P (deep_flatten_value k v acc)"
      by (rule deep_flatten_invariant(1) [where P = P]) (rule step, assumption+, rule Cons.prems)
    then show ?case using Cons.IH by (simp add: a)
  qed
  then show ?thesis using init by (simp add: deep_flatten_row_def)
qed

lemma flatten_json_keys: "k \<in> fst ` set (flatten_json d p) \<Longrightarrow> \<exists>s. k = KStr s \<and> s \<noteq> []"
proof -
  have "\<forall>k\<in>fst ` set (recurse d p []). \<exists>s. k = KStr s \<and> s \<noteq> []"
    by (rule recurse_invariant(1) [where P = "\<lambda>out. \<forall>k\<in>fst ` set out. \<exists>s. k = KStr s \<and> s \<noteq> []"])
       (auto simp: dict_set_keys normalize_key_nonempty)
  then show "k \<in> fst ` set (flatten_json d p) \<Longrightarrow> \<exists>s. k = KStr s \<and> s \<noteq> []"
    unfolding flatten_json_def by blast
qed

lemma normalize_key_empty: "normalize_key (KStr []) = ''unknown''" "normalize_key KNone = ''unknown''"
  by (simp_all add: normalize_key_def py_strip_Nil)

lemma flatten_json_single:
  "flatten_json (Map [(key, v)]) p = flatten_json v (KStr (normalize_key p @ ''_'' @ normalize_key key))"
  by (simp add: flatten_json_def)

lemma leaf_value_not_null: "leaf_value s \<noteq> Scalar SNone"
  by (simp add: leaf_value_def)

lemma dict_set_no_null:
  "Scalar SNone \<notin> snd ` set out \<Longrightarrow> Scalar SNone \<notin> snd ` set (dict_set k (leaf_value s) out)"
  by (induction out) (auto simp: leaf_value_def)

lemma flatten_json_no_null: "Scalar SNone \<notin> snd ` set (flatten_json d p)"
proof -
  have "Scalar SNone \<notin> snd ` set (recurse d p [])"
    by (rule recurse_invariant(1) [where P = "\<lambda>out. Scalar SNone \<notin> snd ` set out"])
       (simp_all add: dict_set_no_null)
  then show ?thesis by (simp add: flatten_json_def)
qed

lemma deep_flatten_row_no_null: "Scalar SNone \<notin> snd ` set (deep_flatten_row row)"
  by (rule deep_flatten_row_invariant [where P = "\<lambda>out. Scalar SNone \<notin> snd ` set out"])
     (simp_all add: dict_set_no_null)

section \<open>Prefixes\<close>

lemma recurse_items_fold:
  "recurse_items kvs kp out = fold (\<lambda>(k, v). recurse v (KStr (kp @ ''_'' @ normalize_key k))) kvs out"
  by (induction kvs arbitrary: out) auto

lemma deep_flatten_items_fold:
  "deep_flatten_items q kvs out =
     fold (\<lambda>(k, v). deep_flatten_value (KStr (py_strip is_sep (q @ ''_'' @ py_str k))) v) kvs out"
  by (induction kvs arbitrary: out) auto

lemma deep_flatten_value_skip: "p = KStr [] \<or> p = KNone \<Longrightarrow> deep_flatten_value p v out = out"
  by (cases v) auto

lemma recurse_key_prefix:
  "\<forall>k\<in>fst ` set (recurse v p out). k \<in> fst ` set out \<or> (\<exists>s. k = KStr (normalize_key p @ s))"
  "\<forall>k\<in>fst ` set (recurse_items kvs kp out). k \<in> fst ` set out \<or> (\<exists>s. k = KStr (kp @ s))"
  "\<forall>k\<in>fst ` set (recurse_enum xs i kp out). k \<in> fst ` set out \<or> (\<exists>s. k = KStr (kp @ s))"
proof (induction v p out and kvs kp out and xs i kp out
    rule: recurse_recurse_items_recurse_enum.induct)
  case (1 kvs key_prefix out)
  then show ?case by simp
next
  case (2 xs key_prefix out)
  then show ?case by simp
next
  case (3 s key_prefix out)
  show ?case by (auto simp: normalize_key_idem dict_set_keys)
next
  case (4 kp out)
  then show ?case by simp
next
  case (5 k v kvs kp out)
  let ?p = "kp @ ''_'' @ normalize_key k"
  have n: "normalize_key (KStr ?p) = ?p"
    using normalize_key_composed [of kp "normalize_key k"] by simp
  show ?case
  proof
    fix x assume "x \<in> fst ` set (recurse_items ((k, v) # kvs) kp out)"
    then have "x \<in> fst ` set (recurse_items kvs kp (recurse v (KStr ?p) out))"
      by simp
    with "5.IH"(2) have "x \<in> fst ` set (recurse v (KStr ?p) out) \<or> (\<exists>s. x = KStr (kp @ s))"
      by blast
    moreover have "x \<in> fst ` set out \<or> (\<exists>s. x = KStr (kp @ s))"
      if "x \<in> fst ` set (recurse v (KStr ?p) out)"
    proof -
      from that "5.IH"(1) have "x \<in> fst ` set out \<or> (\<exists>s. x = KStr (?p @ s))"
        unfolding n by blast
      then show ?thesis
      proof
        assume "x \<in> fst ` set out" then show ?thesis ..
      next
        assume "\<exists>s. x = KStr (?p @ s)"
        then obtain s where "x = KStr (kp @ (''_'' @ normalize_key k @ s))" by auto
        then show ?thesis by blast
      qed
    qed
    ultimately show "x \<in> fst ` set out \<or> (\<exists>s. x = KStr (kp @ s))" by blast
  qed
next
  case (6 i kp out)
  then show ?case by simp
next
  case (7 x xs i kp out)
  let ?p = "kp @ ''_'' @ str_nat i"
  have n: "normalize_key (KStr ?p) = ?p"
    using normalize_key_composed [of kp "str_nat i"] by simp
  show ?case
  proof
    fix y assume "y \<in> fst ` set (recurse_enum (x # xs) i kp out)"
    then have "y \<in> fst ` set (recurse_enum xs (Suc i) kp (recurse x (KStr ?p) out))"
      by simp
    with "7.IH"(2) have "y \<in> fst ` set (recurse x (KStr ?p) out) \<or> (\<exists>s. y = KStr (kp @ s))"
      by blast
    moreover have "y \<in> fst ` set out \<or> (\<exists>s. y = KStr (kp @ s))"
      if "y \<in> fst ` set (recurse x (KStr ?p) out)"
    proof -
      from that "7.IH"(1) have "y \<in> fst ` set out \<or> (\<exists>s. y = KStr (?p @ s))"
        unfolding n by blast
      then show ?thesis
      proof
        assume "y \<in> fst ` set out" then show ?thesis ..
      next
        assume "\<exists>s. y = KStr (?p @ s)"
        then obtain s where "y = KStr (kp @ (''_'' @ str_nat i @ s))" by auto
        then show ?thesis by blast
      qed
    qed
    ultimately show "y \<in> fst ` set out \<or> (\<exists>s. y = KStr (kp @ s))" by blast
  qed
qed

lemma flatten_json_unknown_prefix:
  "k \<in> fst ` set (flatten_json d (KStr [])) \<Longrightarrow> \<exists>s. k = KStr (''unknown'' @ s)"
  using recurse_key_prefix(1) [of d "KStr []" "[]"]
  by (auto simp: flatten_json_def normalize_key_empty)

lemma stripped_clean: "py_strip is_sep q \<noteq> [] \<Longrightarrow> clean_key (KStr (py_strip is_sep q))"
  using py_strip_hd [of is_sep q] by (simp add: clean_key_def is_sep_def)

lemma deep_flatten_clean:
  "(\<exists>q. p = KStr (py_strip is_sep q)) \<longrightarrow>
     (\<forall>k\<in>fst ` set (deep_flatten_value p v out). k \<in> fst ` set out \<or> clean_key k)"
  "\<forall>k\<in>fst ` set (deep_flatten_items r kvs out). k \<in> fst ` set out \<or> clean_key k"
  "\<forall>k\<in>fst ` set (deep_flatten_enum r i xs out). k \<in> fst ` set out \<or> clean_key k"
proof (induction p v out and r kvs out and r i xs out
    rule: deep_flatten_value_deep_flatten_items_deep_flatten_enum.induct)
  case (1 prefix kvs out)
  then show ?case by auto
next
  case (2 prefix xs out)
  then show ?case by auto
next
  case (3 prefix s out)
  show ?case
  proof (intro impI ballI)
    fix k assume p: "\<exists>q. prefix = KStr (py_strip is_sep q)"
      and k: "k \<in> fst ` set (deep_flatten_value prefix (Scalar s) out)"
    show "k \<in> fst ` set out \<or> clean_key k"
    proof (cases "prefix = KStr [] \<or> prefix = KNone")
      case True
      then show ?thesis using k by auto
    next
      case False
      then have "k \<in> insert prefix (fst ` set out)"
        using k by (simp add: dict_set_keys)
      moreover have "clean_key prefix" using p False stripped_clean by auto
      ultimately show ?thesis by auto
    qed
  qed
next
  case (4 p out)
  then show ?case by simp
next
  case (5 p k v kvs out)
  let ?mid = "deep_flatten_value (KStr (py_strip is_sep (p @ ''_'' @ py_str k))) v out"
  have a: "\<forall>x\<in>fst ` set ?mid. x \<in> fst ` set out \<or> clean_key x"
    using "5.IH"(1) by blast
  have b: "\<forall>x\<in>fst ` set (deep_flatten_items p kvs ?mid). x \<in> fst ` set ?mid \<or> clean_key x"
    using "5.IH"(2) .
  show ?case using a b by (simp only: deep_flatten_items.simps deep_flatten_enum.simps) blast
next
  case (6 p i out)
  then show ?case by simp
next
  case (7 p i x xs out)
  let ?mid = "deep_flatten_value (KStr (py_strip is_sep (p @ ''_'' @ str_nat i))) x out"
  have a: "\<forall>y\<in>fst ` set ?mid. y \<in> fst ` set out \<or> clean_key y"
    using "7.IH"(1) by blast
  have b: "\<forall>y\<in>fst ` set (deep_flatten_enum p (Suc i) xs ?mid). y \<in> fst ` set ?mid \<or> clean_key y"
    using "7.IH"(2) .
  show ?case using a b by (simp only: deep_flatten_items.simps deep_flatten_enum.simps) blast
qed

lemma deep_flatten_value_top:
  "k \<in> fst ` set (deep_flatten_value p v out) \<Longrightarrow> k \<in> fst ` set out \<or> k = p \<or> clean_key k"
proof (cases v)
  case (Scalar s)
  have "fst ` set (deep_flatten_value p (Scalar s) out) \<subseteq> insert p (fst ` set out)"
    by (auto simp: dict_set_keys simp del: image_insert)
  then show "k \<in> fst ` set (deep_flatten_value p v out) \<Longrightarrow> k \<in> fst ` set out \<or> k = p \<or> clean_key k"
    unfolding Scalar by blast
next
  case (Seq xs)
  then show "k \<in> fst ` set (deep_flatten_value p v out) \<Longrightarrow> k \<in> fst ` set out \<or> k = p \<or> clean_key k"
    using deep_flatten_clean(3) [of "py_str p" 0 xs out] by (auto split: if_splits)
next
  case (Map kvs)
  then show "k \<in> fst ` set (deep_flatten_value p v out) \<Longrightarrow> k \<in> fst ` set out \<or> k = p \<or> clean_key k"
    using deep_flatten_clean(2) [of "py_str p" kvs out] by (auto split: if_splits)
qed

lemma deep_flatten_row_top:
  "k \<in> fst ` set (deep_flatten_row row) \<Longrightarrow> k \<in> fst ` set row \<or> clean_key k"
proof -
  have "k \<in> fst ` set (fold (\<lambda>(key, val) flat. deep_flatten_value key val flat) row acc)
        \<Longrightarrow> k \<in> fst ` set acc \<or> k \<in> fst ` set row \<or> clean_key k" for acc
  proof (induction row arbitrary: acc)
    case Nil
    then show ?case by simp
  next
    case (Cons a row)
    obtain p v where a: "a = (p, v)" by (cases a)
    from Cons.prems have "k \<in> fst ` set (fold (\<lambda>(key, val) flat. deep_flatten_value key val flat) row
        (deep_flatten_value p v acc))" by (simp add: a)
    then have "k \<in> fst ` set (deep_flatten_value p v acc) \<or> k \<in> fst ` set row \<or> clean_key k"
      by (rule Cons.IH)
    then show ?case using deep_flatten_value_top [of k p v acc] by (auto simp: a)
  qed
  from this [of "[]"] show "k \<in> fst ` set (deep_flatten_row row) \<Longrightarrow> k \<in> fst ` set row \<or> clean_key k"
    by (simp add: deep_flatten_row_def)
qed

text \<open>
  C2 (as amended). In \<open>flatten_json\<close> the prefix for the child under key \<open>k\<close> of a
  Map is \<open>normalize(prefix) + "_" + normalize(k)\<close>, also when the prefix is empty: the
  empty prefix is normalized to \<open>unknown\<close>, so for the empty initial prefix the child
  prefixes are \<open>unknown_\<close> followed by the normalized key, and every output key begins
  with \<open>unknown\<close>. In \<open>deep_flatten_value\<close> a prefix that is empty or null discards the
  value; otherwise the child prefix is \<open>str(prefix) + "_" + str(k)\<close> with the leading and
  trailing separators stripped and no normalization. An output key of \<open>deep_flatten_row\<close>
  begins with the separator only if it is a top-level key of the row.
\<close>

theorem child_prefix_composition:
  "recurse (Map kvs) p out =
     fold (\<lambda>(k, v). recurse v (KStr (normalize_key p @ ''_'' @ normalize_key k))) kvs out \<and>
   flatten_json (Map kvs) (KStr []) =
     fold (\<lambda>(k, v). recurse v (KStr (''unknown_'' @ normalize_key k))) kvs [] \<and>
   (p \<noteq> KStr [] \<and> p \<noteq> KNone \<longrightarrow>
      deep_flatten_value p (Map kvs) out =
        fold (\<lambda>(k, v). deep_flatten_value (KStr (py_strip is_sep (py_str p @ ''_'' @ py_str k))) v) kvs out) \<and>
   (p = KStr [] \<or> p = KNone \<longrightarrow> deep_flatten_value p v out = out) \<and>
   (\<forall>k\<in>fst ` set (flatten_json d (KStr [])). \<exists>s. k = KStr (''unknown'' @ s)) \<and>
   (\<forall>k\<in>fst ` set (deep_flatten_row row).
      k \<in> fst ` set row \<or> (\<exists>s. k = KStr s \<and> s \<noteq> [] \<and> hd s \<noteq> CHR ''_''))"
proof -
  have a: "recurse (Map kvs) p out =
     fold (\<lambda>(k, v). recurse v (KStr (normalize_key p @ ''_'' @ normalize_key k))) kvs out"
    by (simp add: recurse_items_fold)
  have b: "flatten_json (Map kvs) (KStr []) =
     fold (\<lambda>(k, v). recurse v (KStr (''unknown_'' @ normalize_key k))) kvs []"
    by (simp add: flatten_json_def recurse_items_fold normalize_key_empty)
  have c: "p \<noteq> KStr [] \<and> p \<noteq> KNone \<longrightarrow>
      deep_flatten_value p (Map kvs) out =
        fold (\<lambda>(k, v). deep_flatten_value (KStr (py_strip is_sep (py_str p @ ''_'' @ py_str k))) v) kvs out"
    by (simp add: deep_flatten_items_fold)
  have d: "p = KStr [] \<or> p = KNone \<longrightarrow> deep_flatten_value p v out = out"
    using deep_flatten_value_skip by blast
  have e: "\<forall>k\<in>fst ` set (flatten_json d (KStr [])). \<exists>s. k = KStr (''unknown'' @ s)"
    using flatten_json_unknown_prefix by blast
  have f: "\<forall>k\<in>fst ` set (deep_flatten_row row).
      k \<in> fst ` set row \<or> (\<exists>s. k = KStr s \<and> s \<noteq> [] \<and> hd s \<noteq> CHR ''_'')"
    using deep_flatten_row_top [of _ row] unfolding clean_key_def by blast
  show ?thesis
    apply (rule conjI, rule a)
    apply (rule conjI, rule b)
    apply (rule conjI, rule c)
    apply (rule conjI, rule d)
    apply (rule conjI, rule e)
    apply (rule f)
    done
qed

lemma normalize_key_a: "normalize_key (KStr ''a'') = ''a''"
  by code_simp

theorem child_prefix_composition_witness:
  "KStr ''r'' \<noteq> KStr [] \<and> KStr ''r'' \<noteq> KNone \<and>
   deep_flatten_value (KStr ''r'') (Map [(KStr ''a'', Scalar (SInt 1))]) [] =
     deep_flatten_value (KStr ''r_a'') (Scalar (SInt 1)) [] \<and>
   flatten_json (Map [(KStr ''a'', Scalar (SInt 1))]) (KStr []) =
     recurse (Scalar (SInt 1)) (KStr ''unknown_a'') []"
proof -
  have s: "py_strip is_sep ''r_a'' = ''r_a''" by code_simp
  show ?thesis
    using child_prefix_composition [of "[(KStr ''a'', Scalar (SInt 1))]" "KStr ''r''" "[]"
        "Scalar SNone" "Scalar SNone" "[]"]
    by (simp add: normalize_key_a s)
qed

text \<open>
  With the empty prefix the top-level key \<open>a\<close> is not used alone, and a top-level key
  of a row that begins with the separator stays as it is.
\<close>

theorem child_prefix_composition_counterexample:
  "flatten_json (Map [(KStr ''a'', Scalar (SInt 1))]) (KStr []) = [(KStr ''unknown_a'', Scalar (SInt 1))] \<and>
   flatten_json (Map [(KStr ''a'', Scalar (SInt 1))]) (KStr []) \<noteq> flatten_json (Scalar (SInt 1)) (KStr ''a'') \<and>
   deep_flatten_row [(KStr ''_a'', Scalar (SInt 1))] = [(KStr ''_a'', Scalar (SInt 1))]"
  by code_simp

lemma deep_flatten_scalars:
  "distinct (map fst kss) \<Longrightarrow> fst ` set acc \<inter> fst ` set kss = {} \<Longrightarrow>
   fold (\<lambda>(key, val) flat. deep_flatten_value key val flat) (map (\<lambda>(k, s). (k, Scalar s)) kss) acc =
     acc @ map (\<lambda>(k, s). (k, leaf_value s)) (filter (\<lambda>(k, s). k \<noteq> KStr [] \<and> k \<noteq> KNone) kss)"
proof (induction kss arbitrary: acc)
  case Nil
  then show ?case by simp
next
  case (Cons a kss)
  obtain k s where a: "a = (k, s)" by (cases a)
  have d: "distinct (map fst kss)" using Cons.prems(1) by simp
  have knew: "k \<notin> fst ` set acc" using Cons.prems(2) by (auto simp: a)
  show ?case
  proof (cases "k = KStr [] \<or> k = KNone")
    case True
    have "fst ` set acc \<inter> fst ` set kss = {}" using Cons.prems(2) by auto
    from Cons.IH [OF d this] True show ?thesis by (auto simp: a)
  next
    case False
    let ?acc = "acc @ [(k, leaf_value s)]"
    have "fst ` set ?acc \<inter> fst ` set kss = {}"
      using Cons.prems by (auto simp: a)
    from Cons.IH [OF d this] False knew show ?thesis
      by (simp add: a dict_set_append)
  qed
qed

text \<open>
  C8 (as amended). For a row whose values are all scalars, \<open>deep_flatten_row\<close> keeps the
  entries in order with their keys unchanged, except that an entry under an empty or null
  key is dropped and a null value becomes the empty string; so a row of non-null scalars
  under non-empty string keys comes back unchanged. \<open>normalize_key\<close> returns a string
  that has a non-whitespace character unchanged, and normalizing twice is normalizing once.
\<close>

theorem reflatten_flat_row:
  assumes "distinct (map fst kss)"
  shows "deep_flatten_row (map (\<lambda>(k, s). (k, Scalar s)) kss) =
           map (\<lambda>(k, s). (k, leaf_value s)) (filter (\<lambda>(k, s). k \<noteq> KStr [] \<and> k \<noteq> KNone) kss) \<and>
         ((\<forall>(k, s)\<in>set kss. s \<noteq> SNone \<and> k \<noteq> KStr [] \<and> k \<noteq> KNone) \<longrightarrow>
            deep_flatten_row (map (\<lambda>(k, s). (k, Scalar s)) kss) = map (\<lambda>(k, s). (k, Scalar s)) kss) \<and>
         (py_strip is_space t \<noteq> [] \<longrightarrow> normalize_key (KStr t) = t) \<and>
         normalize_key (KStr (normalize_key key)) = normalize_key key"
proof -
  have a: "deep_flatten_row (map (\<lambda>(k, s). (k, Scalar s)) kss) =
           map (\<lambda>(k, s). (k, leaf_value s)) (filter (\<lambda>(k, s). k \<noteq> KStr [] \<and> k \<noteq> KNone) kss)"
    using deep_flatten_scalars [OF assms, of "[]"] by (simp add: deep_flatten_row_def)
  have b: "deep_flatten_row (map (\<lambda>(k, s). (k, Scalar s)) kss) = map (\<lambda>(k, s). (k, Scalar s)) kss"
    if h: "\<forall>(k, s)\<in>set kss. s \<noteq> SNone \<and> k \<noteq> KStr [] \<and> k \<noteq> KNone"
  proof -
    have "filter (\<lambda>(k, s). k \<noteq> KStr [] \<and> k \<noteq> KNone) kss = kss"
      using h by (auto simp: filter_id_conv)
    moreover have "map (\<lambda>(k, s). (k, leaf_value s)) kss = map (\<lambda>(k, s). (k, Scalar s)) kss"
      using h by (auto simp: leaf_value_def)
    ultimately show ?thesis using a by simp
  qed
  have c: "py_strip is_space t \<noteq> [] \<longrightarrow> normalize_key (KStr t) = t"
    by (simp add: normalize_key_def)
  show ?thesis using a b c normalize_key_idem by blast
qed

theorem reflatten_flat_row_witness:
  "distinct (map fst [(KStr ''a'', SInt 1), (KStr ''b'', SStr ''x'')]) \<and>
   SInt 1 \<noteq> SNone \<and> SStr ''x'' \<noteq> SNone \<and> KStr ''a'' \<noteq> KStr [] \<and> KStr ''b'' \<noteq> KStr [] \<and>
   py_strip is_space ''a'' \<noteq> [] \<and>
   deep_flatten_row [(KStr ''a'', Scalar (SInt 1)), (KStr ''b'', Scalar (SStr ''x''))] =
     [(KStr ''a'', Scalar (SInt 1)), (KStr ''b'', Scalar (SStr ''x''))] \<and>
   normalize_key (KStr ''a'') = ''a''"
proof -
  have d: "distinct (map fst [(KStr ''a'', SInt 1), (KStr ''b'', SStr ''x'')])" by simp
  have n: "py_strip is_space ''a'' \<noteq> []" by code_simp
  show ?thesis
    using d n reflatten_flat_row [OF d, of "''a''" KNone] by (simp add: leaf_value_def)
qed

text \<open>
  A flat row with a null value does not come back unchanged, and the non-empty key
  \<open>" "\<close> is changed by \<open>normalize_key\<close>.
\<close>

theorem reflatten_flat_row_counterexample:
  "is_scalar (Scalar SNone) \<and>
   deep_flatten_row [(KStr ''a'', Scalar SNone)] = [(KStr ''a'', Scalar (SStr []))] \<and>
   deep_flatten_row [(KStr ''a'', Scalar SNone)] \<noteq> [(KStr ''a'', Scalar SNone)] \<and>
   normalize_key (KStr '' '') \<noteq> '' ''"
  by code_simp

section \<open>Rectangularization\<close>

lemma dict_set_map:
  "c \<in> fst ` set d \<Longrightarrow> distinct (map fst d) \<Longrightarrow>
   dict_set c v d = map (\<lambda>(c', s). if c' = c then (c', v) else (c', s)) d"
proof (induction d)
  case Nil
  then show ?case by simp
next
  case (Cons e d)
  obtain c' s where e: "e = (c', s)" by (cases e)
  show ?case
  proof (cases "c' = c")
    case True
    then have "c \<notin> fst ` set d" using Cons.prems(2) by (auto simp: e)
    then have "map (\<lambda>(c', s). if c' = c then (c', v) else (c', s)) d = d"
      by (induction d) auto
    then show ?thesis using True by (simp add: e)
  next
    case False
    then show ?thesis using Cons by (auto simp: e)
  qed
qed

lemma normalize_column_cols:
  assumes "distinct (map fst (cols df))" and "c \<in> fst ` set (cols df)"
  shows "cols (normalize_column c df) =
           map (\<lambda>(c', s). if c' = c
                  then (c', if list_ex is_list s then map (pad_cell (series_max (map cell_len s))) s else s)
                  else (c', s)) (cols df)"
    and "nrows (normalize_column c df) = nrows df"
proof -
  from assms(2) obtain s where s: "(c, s) \<in> set (cols df)" by auto
  then have m: "map_of (cols df) c = Some s" using assms(1) by simp
  have same: "\<forall>(c', s')\<in>set (cols df). c' = c \<longrightarrow> s' = s"
    using assms(1) s by (auto dest: eq_key_imp_eq_value)
  show "nrows (normalize_column c df) = nrows df"
    by (simp add: normalize_column_def m Let_def)
  show "cols (normalize_column c df) =
           map (\<lambda>(c', s). if c' = c
                  then (c', if list_ex is_list s then map (pad_cell (series_max (map cell_len s))) s else s)
                  else (c', s)) (cols df)"
  proof (cases "list_ex is_list s")
    case True
    have "cols (normalize_column c df) = dict_set c (map (pad_cell (series_max (map cell_len s))) s) (cols df)"
      using True by (simp add: normalize_column_def m Let_def)
    also have "\<dots> = map (\<lambda>(c', s'). if c' = c then (c', map (pad_cell (series_max (map cell_len s))) s) else (c', s')) (cols df)"
      by (rule dict_set_map [OF assms(2) assms(1)])
    also have "\<dots> = map (\<lambda>(c', s). if c' = c
                  then (c', if list_ex is_list s then map (pad_cell (series_max (map cell_len s))) s else s)
                  else (c', s)) (cols df)"
      using same True by (intro map_cong) auto
    finally show ?thesis .
  next
    case False
    have "cols (normalize_column c df) = cols df"
      using False by (simp add: normalize_column_def m)
    also have "\<dots> = map (\<lambda>(c', s). if c' = c
                  then (c', if list_ex is_list s then map (pad_cell (series_max (map cell_len s))) s else s)
                  else (c', s)) (cols df)"
      using same False by (intro map_idI [symmetric]) auto
    finally show ?thesis .
  qed
qed

lemma fold_normalize_column:
  "distinct (map fst (cols df)) \<Longrightarrow> set ns \<subseteq> fst ` set (cols df) \<Longrightarrow> distinct ns \<Longrightarrow>
   cols (fold normalize_column ns df) =
     map (\<lambda>(c, s). if c \<in> set ns
            then (c, if list_ex is_list s then map (pad_cell (series_max (map cell_len s))) s else s)
            else (c, s)) (cols df) \<and>
   nrows (fold normalize_column ns df) = nrows df"
proof (induction ns arbitrary: df)
  case Nil
  then show ?case by (simp add: map_idI)
next
  case (Cons n ns)
  let ?N = "\<lambda>s. if list_ex is_list s then map (pad_cell (series_max (map cell_len s))) s else s"
  let ?df = "normalize_column n df"
  have n: "n \<in> fst ` set (cols df)" using Cons.prems(2) by simp
  have c: "cols ?df = map (\<lambda>(c', s). if c' = n then (c', ?N s) else (c', s)) (cols df)"
    by (rule normalize_column_cols(1) [OF Cons.prems(1) n])
  have r: "nrows ?df = nrows df"
    by (rule normalize_column_cols(2) [OF Cons.prems(1) n])
  have "map fst (map (\<lambda>(c', s). if c' = n then (c', ?N s) else (c', s)) d) = map fst d" for d
    by (induction d) auto
  then have labels: "map fst (cols ?df) = map fst (cols df)"
    unfolding c by simp
  have d: "distinct (map fst (cols ?df))" using Cons.prems(1) labels by simp
  have s: "set ns \<subseteq> fst ` set (cols ?df)"
    using Cons.prems(2) labels by (metis list.set_map set_subset_Cons subset_trans)
  have dn: "distinct ns" and nn: "n \<notin> set ns" using Cons.prems(3) by simp_all
  from Cons.IH [OF d s dn]
  have "cols (fold normalize_column ns ?df) =
          map (\<lambda>(c, s). if c \<in> set ns then (c, ?N s) else (c, s)) (cols ?df)"
    and r': "nrows (fold normalize_column ns ?df) = nrows ?df" by simp_all
  then have "cols (fold normalize_column ns ?df) =
          map ((\<lambda>(c, s). if c \<in> set ns then (c, ?N s) else (c, s)) \<circ>
               (\<lambda>(c', s). if c' = n then (c', ?N s) else (c', s))) (cols df)"
    unfolding c by simp
  also have "\<dots> = map (\<lambda>(c, s). if c \<in> set (n # ns) then (c, ?N s) else (c, s)) (cols df)"
    using nn by (intro map_cong) auto
  finally show ?case using r r' by simp
qed

lemma normalize_list_columns_cols:
  assumes "distinct (map fst (cols df))"
  shows "cols (normalize_list_columns df) =
           map (\<lambda>(c, s). (c, if list_ex is_list s
                               then map (pad_cell (series_max (map cell_len s))) s else s)) (cols df)"
    and "nrows (normalize_list_columns df) = nrows df"
proof -
  have "cols (normalize_list_columns df) =
     map (\<lambda>(c, s). if c \<in> set (map fst (cols df))
            then (c, if list_ex is_list s then map (pad_cell (series_max (map cell_len s))) s else s)
            else (c, s)) (cols df)"
    and r: "nrows (normalize_list_columns df) = nrows df"
    using fold_normalize_column [OF assms, of "map fst (cols df)"] assms
    by (simp_all add: normalize_list_columns_def)
  then show "cols (normalize_list_columns df) =
           map (\<lambda>(c, s). (c, if list_ex is_list s
                               then map (pad_cell (series_max (map cell_len s))) s else s)) (cols df)"
    by (auto intro!: map_cong simp: rev_image_eqI)
  show "nrows (normalize_list_columns df) = nrows df" by (rule r)
qed

lemma normalize_list_columns_lookup:
  assumes "distinct (map fst (cols df))" and "(c, s) \<in> set (cols df)"
  shows "map_of (cols (normalize_list_columns df)) c =
           Some (if list_ex is_list s then map (pad_cell (series_max (map cell_len s))) s else s)"
proof -
  let ?N = "\<lambda>s. if list_ex is_list s then map (pad_cell (series_max (map cell_len s))) s else s"
  have "map_of (map (\<lambda>(c, s). (c, ?N s)) (cols df)) c = map_option ?N (map_of (cols df) c)"
    by (simp add: map_of_map)
  then show ?thesis
    using assms by (simp add: normalize_list_columns_cols(1))
qed

lemma fold_max_shift: "fold max ns (max b a) = max b (fold max ns (a::nat))"
proof (induction ns arbitrary: a)
  case Nil
  show ?case by simp
next
  case (Cons x ns)
  have "max x (max b a) = max b (max x a)" by (rule max.left_commute)
  then have "fold max (x # ns) (max b a) = fold max ns (max b (max x a))" by simp
  also have "\<dots> = max b (fold max ns (max x a))" by (rule Cons.IH)
  finally show ?case by simp
qed

lemma series_max_Max: "ns \<noteq> [] \<Longrightarrow> series_max ns = Max (set ns)"
proof (cases ns)
  case Nil
  assume "ns \<noteq> []"
  with Nil show ?thesis by simp
next
  case (Cons n ms)
  have "series_max ns = fold max ms n" by (simp add: series_max_def Cons)
  also have "\<dots> = Max (set (n # ms))" by (rule Max.set_eq_fold [symmetric])
  finally show ?thesis by (simp only: Cons)
qed

lemma series_max_ge: "n \<in> set ns \<Longrightarrow> n \<le> series_max ns"
proof -
  assume n: "n \<in> set ns"
  then have "ns \<noteq> []" by auto
  then show ?thesis using n by (simp add: series_max_Max)
qed

lemma pad_cell_length: "cell_len x \<le> m \<Longrightarrow> \<exists>ys. pad_cell m x = Seq ys \<and> length ys = m"
  by (cases x) (auto simp: pad_cell_def cell_len_def)

lemma fold_max_cell_len:
  "fold max (map cell_len series) a =
     (if list_all is_list series then fold max (seq_lengths series) a
      else max 1 (fold max (seq_lengths series) a))"
proof (induction series arbitrary: a rule: seq_lengths.induct)
  case 1
  then show ?case by simp
next
  case (2 xs cells)
  have c: "cell_len (Seq xs) = length xs" and l: "is_list (Seq xs)"
    by (simp_all add: cell_len_def is_list_def)
  show ?case using 2 [of "max (length xs) a"] by (simp add: c l)
next
  case (3 v cells)
  have c: "cell_len (Scalar v) = 1" and l: "\<not> is_list (Scalar v)"
    by (simp_all add: cell_len_def is_list_def)
  show ?case
    using "3" [of "max 1 a"] fold_max_shift [of "seq_lengths cells" 1 a]
    by (simp add: c l)
next
  case (4 v cells)
  have c: "cell_len (Map v) = 1" and l: "\<not> is_list (Map v)"
    by (simp_all add: cell_len_def is_list_def)
  show ?case
    using "4" [of "max 1 a"] fold_max_shift [of "seq_lengths cells" 1 a]
    by (simp add: c l)
qed

lemma series_max_spec:
  "series_max (map cell_len series) =
     (if list_all is_list series then spec_max_len series else max 1 (spec_max_len series))"
  by (simp add: series_max_def spec_max_len_def fold_max_cell_len)

text \<open>
  C3 (as amended). In a frame with unique labels, for a column that has at least one list
  cell, \<open>max_len\<close> is the maximum over all cells of the column of the length of a list
  cell and 1 for any other cell: it is the maximum length among the list cells, except
  that a cell that is no list raises it to at least 1. Afterwards every cell of the column
  is a list of exactly that length: a list cell padded on the right with null, any other
  cell wrapped as a one-element list and padded on the right with null.
\<close>

theorem rectangularize_list_column:
  assumes "distinct (map fst (cols df))" and "(c, series) \<in> set (cols df)" and "list_ex is_list series"
  shows "map_of (cols (normalize_list_columns df)) c =
           Some (map (pad_cell (series_max (map cell_len series))) series) \<and>
         series_max (map cell_len series) = Max (cell_len ` set series) \<and>
         series_max (map cell_len series) =
           (if list_all is_list series then spec_max_len series else max 1 (spec_max_len series)) \<and>
         (\<forall>x\<in>set (map (pad_cell (series_max (map cell_len series))) series).
            \<exists>ys. x = Seq ys \<and> length ys = series_max (map cell_len series)) \<and>
         (\<forall>xs m. pad_cell m (Seq xs) = Seq (xs @ replicate (m - length xs) (Scalar SNone))) \<and>
         (\<forall>x m. \<not> is_list x \<longrightarrow> pad_cell m x = Seq (x # replicate (m - 1) (Scalar SNone)))"
proof -
  let ?m = "series_max (map cell_len series)"
  have a: "map_of (cols (normalize_list_columns df)) c = Some (map (pad_cell ?m) series)"
    using normalize_list_columns_lookup [OF assms(1) assms(2)] assms(3) by simp
  have ne: "map cell_len series \<noteq> []" using assms(3) by (auto simp: list_ex_iff)
  have b: "?m = Max (cell_len ` set series)"
    using series_max_Max [OF ne] by simp
  have d: "\<forall>x\<in>set (map (pad_cell ?m) series). \<exists>ys. x = Seq ys \<and> length ys = ?m"
  proof
    fix x assume "x \<in> set (map (pad_cell ?m) series)"
    then obtain y where y: "y \<in> set series" and x: "x = pad_cell ?m y" by auto
    have "cell_len y \<le> ?m" using y by (intro series_max_ge) simp
    from pad_cell_length [OF this] show "\<exists>ys. x = Seq ys \<and> length ys = ?m" by (simp add: x)
  qed
  have e: "\<forall>xs m. pad_cell m (Seq xs) = Seq (xs @ replicate (m - length xs) (Scalar SNone))"
    by (simp add: pad_cell_def)
  have f: "\<forall>x m. \<not> is_list x \<longrightarrow> pad_cell m x = Seq (x # replicate (m - 1) (Scalar SNone))"
    by (auto simp: pad_cell_def is_list_def split: node.splits)
  show ?thesis
    apply (rule conjI, rule a)
    apply (rule conjI, rule b)
    apply (rule conjI, rule series_max_spec)
    apply (rule conjI, rule d)
    apply (rule conjI, rule e)
    apply (rule f)
    done
qed

theorem rectangularize_list_column_witness:
  "distinct (map fst (cols mixed_frame)) \<and>
   (KStr ''b'', [Seq [Scalar (SStr ''x''), Scalar (SStr ''y'')], Scalar SNone]) \<in> set (cols mixed_frame) \<and>
   list_ex is_list [Seq [Scalar (SStr ''x''), Scalar (SStr ''y'')], Scalar SNone] \<and>
   series_max (map cell_len [Seq [Scalar (SStr ''x''), Scalar (SStr ''y'')], Scalar SNone]) = 2 \<and>
   map_of (cols (normalize_list_columns mixed_frame)) (KStr ''b'') =
     Some [Seq [Scalar (SStr ''x''), Scalar (SStr ''y'')], Seq [Scalar SNone, Scalar SNone]]"
proof -
  have a: "distinct (map fst (cols mixed_frame))" by (simp add: mixed_frame_def)
  have b: "(KStr ''b'', [Seq [Scalar (SStr ''x''), Scalar (SStr ''y'')], Scalar SNone]) \<in> set (cols mixed_frame)"
    by (simp add: mixed_frame_def)
  have c: "list_ex is_list [Seq [Scalar (SStr ''x''), Scalar (SStr ''y'')], Scalar SNone]"
    by (simp add: is_list_def)
  have m: "series_max (map cell_len [Seq [Scalar (SStr ''x''), Scalar (SStr ''y'')], Scalar SNone]) = 2"
    by (simp add: series_max_def cell_len_def)
  have p: "map (pad_cell 2) [Seq [Scalar (SStr ''x''), Scalar (SStr ''y'')], Scalar SNone] =
      [Seq [Scalar (SStr ''x''), Scalar (SStr ''y'')], Seq [Scalar SNone, Scalar SNone]]"
    by (simp add: pad_cell_def numeral_2_eq_2)
  show ?thesis
    using a b c m p rectangularize_list_column [OF a b c] by simp
qed

text \<open>
  With an empty list and a scalar in the column, the cells get length 1, which is not the
  maximum length among the list cells.
\<close>

theorem rectangularize_list_column_counterexample:
  "list_ex is_list [Seq [], Scalar (SInt 5)] \<and>
   spec_max_len [Seq [], Scalar (SInt 5)] = 0 \<and>
   cols (normalize_list_columns ragged_frame) =
     [(KStr ''c'', [Seq [Scalar SNone], Seq [Scalar (SInt 5)]])] \<and>
   length [Scalar (SInt 5)] \<noteq> spec_max_len [Seq [], Scalar (SInt 5)]"
  by code_simp

text \<open>
  C9. In a frame with unique labels, \<open>normalize_list_columns\<close> keeps the number of
  rows, the labels and their order and the number of cells of every column, and a column
  without a list cell keeps its cells.
\<close>

theorem rectangularize_frame:
  assumes "distinct (map fst (cols df))"
  shows "nrows (normalize_list_columns df) = nrows df \<and>
         map fst (cols (normalize_list_columns df)) = map fst (cols df) \<and>
         map (\<lambda>(c, series). length series) (cols (normalize_list_columns df)) =
           map (\<lambda>(c, series). length series) (cols df) \<and>
         length (to_dict_records (normalize_list_columns df)) = length (to_dict_records df) \<and>
         (\<forall>(c, series)\<in>set (cols df). \<not> list_ex is_list series \<longrightarrow>
            map_of (cols (normalize_list_columns df)) c = Some series \<and>
            (c, series) \<in> set (cols (normalize_list_columns df)))"
proof -
  let ?N = "\<lambda>s. if list_ex is_list s then map (pad_cell (series_max (map cell_len s))) s else s"
  have c: "cols (normalize_list_columns df) = map (\<lambda>(c, s). (c, ?N s)) (cols df)"
    by (rule normalize_list_columns_cols(1) [OF assms])
  have r: "nrows (normalize_list_columns df) = nrows df"
    by (rule normalize_list_columns_cols(2) [OF assms])
  have l: "map fst (cols (normalize_list_columns df)) = map fst (cols df)"
    unfolding c by (simp add: comp_def case_prod_beta)
  have n: "map (\<lambda>(c, series). length series) (cols (normalize_list_columns df)) =
           map (\<lambda>(c, series). length series) (cols df)"
    unfolding c by (simp add: comp_def case_prod_beta)
  have t: "length (to_dict_records (normalize_list_columns df)) = length (to_dict_records df)"
    by (simp add: to_dict_records_def r)
  have u: "\<forall>(c, series)\<in>set (cols df). \<not> list_ex is_list series \<longrightarrow>
            map_of (cols (normalize_list_columns df)) c = Some series \<and>
            (c, series) \<in> set (cols (normalize_list_columns df))"
  proof (clarify, rule conjI)
    fix k series assume m: "(k, series) \<in> set (cols df)" and "\<not> list_ex is_list series"
    then show "map_of (cols (normalize_list_columns df)) k = Some series"
      using normalize_list_columns_lookup [OF assms m] by simp
    then show "(k, series) \<in> set (cols (normalize_list_columns df))"
      by (rule map_of_SomeD)
  qed
  show ?thesis
    apply (rule conjI, rule r)
    apply (rule conjI, rule l)
    apply (rule conjI, rule n)
    apply (rule conjI, rule t)
    apply (rule u)
    done
qed

theorem rectangularize_frame_witness:
  "distinct (map fst (cols mixed_frame)) \<and>
   (KStr ''a'', [Scalar (SInt 1), Scalar (SInt 2)]) \<in> set (cols mixed_frame) \<and>
   \<not> list_ex is_list [Scalar (SInt 1), Scalar (SInt 2)] \<and>
   map_of (cols (normalize_list_columns mixed_frame)) (KStr ''a'') = Some [Scalar (SInt 1), Scalar (SInt 2)] \<and>
   nrows (normalize_list_columns mixed_frame) = 2 \<and>
   map fst (cols (normalize_list_columns mixed_frame)) = [KStr ''a'', KStr ''b'']"
proof -
  have a: "distinct (map fst (cols mixed_frame))" by (simp add: mixed_frame_def)
  have b: "(KStr ''a'', [Scalar (SInt 1), Scalar (SInt 2)]) \<in> set (cols mixed_frame)"
    by (simp add: mixed_frame_def)
  have c: "\<not> list_ex is_list [Scalar (SInt 1), Scalar (SInt 2)]" by (simp add: is_list_def)
  have d: "nrows mixed_frame = 2" "map fst (cols mixed_frame) = [KStr ''a'', KStr ''b'']"
    by (simp_all add: mixed_frame_def)
  from rectangularize_frame [OF a] b c
  have "map_of (cols (normalize_list_columns mixed_frame)) (KStr ''a'') = Some [Scalar (SInt 1), Scalar (SInt 2)]"
    by blast
  then show ?thesis using a b c d rectangularize_frame [OF a] by simp
qed

section \<open>The shape of the document\<close>

lemma py_max_split:
  "py_max f b xs = m \<Longrightarrow>
   (m = b \<and> (\<forall>x\<in>set xs. f x \<le> f b)) \<or>
   (\<exists>pre post. xs = pre @ m # post \<and> f b < f m \<and>
      (\<forall>x\<in>set pre. f x < f m) \<and> (\<forall>x\<in>set post. f x \<le> f m))"
proof (induction xs arbitrary: b)
  case Nil
  then show ?case by simp
next
  case (Cons x xs)
  show ?case
  proof (cases "f b < f x")
    case True
    then have "py_max f x xs = m" using Cons.prems by simp
    from Cons.IH [OF this] show ?thesis
    proof
      assume "m = x \<and> (\<forall>y\<in>set xs. f y \<le> f x)"
      then have "x # xs = [] @ m # xs \<and> f b < f m \<and> (\<forall>y\<in>set []. f y < f m) \<and> (\<forall>y\<in>set xs. f y \<le> f m)"
        using True by simp
      then show ?thesis by blast
    next
      assume "\<exists>pre post. xs = pre @ m # post \<and> f x < f m \<and>
          (\<forall>y\<in>set pre. f y < f m) \<and> (\<forall>y\<in>set post. f y \<le> f m)"
      then obtain pre post where p: "xs = pre @ m # post" "f x < f m"
          "\<forall>y\<in>set pre. f y < f m" "\<forall>y\<in>set post. f y \<le> f m" by blast
      then have "x # xs = (x # pre) @ m # post \<and> f b < f m \<and>
          (\<forall>y\<in>set (x # pre). f y < f m) \<and> (\<forall>y\<in>set post. f y \<le> f m)"
        using True by auto
      then show ?thesis by blast
    qed
  next
    case False
    then have "py_max f b xs = m" using Cons.prems by simp
    from Cons.IH [OF this] show ?thesis
    proof
      assume "m = b \<and> (\<forall>y\<in>set xs. f y \<le> f b)"
      then show ?thesis using False by auto
    next
      assume "\<exists>pre post. xs = pre @ m # post \<and> f b < f m \<and>
          (\<forall>y\<in>set pre. f y < f m) \<and> (\<forall>y\<in>set post. f y \<le> f m)"
      then obtain pre post where p: "xs = pre @ m # post" "f b < f m"
          "\<forall>y\<in>set pre. f y < f m" "\<forall>y\<in>set post. f y \<le> f m" by blast
      then have "x # xs = (x # pre) @ m # post \<and> f b < f m \<and>
          (\<forall>y\<in>set (x # pre). f y < f m) \<and> (\<forall>y\<in>set post. f y \<le> f m)"
        using False by auto
      then show ?thesis by blast
    qed
  qed
qed

lemma py_max_first:
  "\<exists>pre post. b # xs = pre @ py_max f b xs # post \<and>
     (\<forall>x\<in>set pre. f x < f (py_max f b xs)) \<and> (\<forall>x\<in>set post. f x \<le> f (py_max f b xs))"
proof -
  let ?m = "py_max f b xs"
  from py_max_split [OF refl, of f b xs] show ?thesis
  proof
    assume "?m = b \<and> (\<forall>x\<in>set xs. f x \<le> f b)"
    then have "b # xs = [] @ ?m # xs \<and> (\<forall>x\<in>set []. f x < f ?m) \<and> (\<forall>x\<in>set xs. f x \<le> f ?m)"
      by simp
    then show ?thesis by blast
  next
    assume "\<exists>pre post. xs = pre @ ?m # post \<and> f b < f ?m \<and>
        (\<forall>x\<in>set pre. f x < f ?m) \<and> (\<forall>x\<in>set post. f x \<le> f ?m)"
    then obtain pre post where p: "xs = pre @ ?m # post" "f b < f ?m"
        "\<forall>x\<in>set pre. f x < f ?m" "\<forall>x\<in>set post. f x \<le> f ?m" by blast
    then have "b # xs = (b # pre) @ ?m # post \<and> (\<forall>x\<in>set (b # pre). f x < f ?m) \<and>
        (\<forall>x\<in>set post. f x \<le> f ?m)" by auto
    then show ?thesis by blast
  qed
qed

lemma list_candidates_set: "(k, ys) \<in> set (list_candidates kvs) \<longleftrightarrow> (k, Seq ys) \<in> set kvs"
  by (induction kvs rule: list_candidates.induct) auto

lemma list_candidates_Nil: "list_candidates kvs = [] \<longleftrightarrow> \<not> list_ex (\<lambda>(k, v). is_list v) kvs"
  by (induction kvs rule: list_candidates.induct) (auto simp: is_list_def)

lemma list_candidates_split:
  "list_candidates kvs = A @ (k, xs) # B \<Longrightarrow>
   \<exists>pre post. kvs = pre @ (k, Seq xs) # post \<and> list_candidates pre = A \<and> list_candidates post = B"
proof (induction kvs arbitrary: A rule: list_candidates.induct)
  case 1
  then show ?case by simp
next
  case (2 k' ys kvs)
  show ?case
  proof (cases A)
    case Nil
    then have "(k', Seq ys) # kvs = [] @ (k, Seq xs) # kvs \<and> list_candidates [] = A \<and>
        list_candidates kvs = B" using "2.prems" by simp
    then show ?thesis by blast
  next
    case (Cons a A')
    then have "list_candidates kvs = A' @ (k, xs) # B" and a: "a = (k', ys)"
      using "2.prems" by simp_all
    from "2.IH" [OF this(1)] obtain pre post where
      "kvs = pre @ (k, Seq xs) # post" "list_candidates pre = A'" "list_candidates post = B" by blast
    then have "(k', Seq ys) # kvs = ((k', Seq ys) # pre) @ (k, Seq xs) # post \<and>
        list_candidates ((k', Seq ys) # pre) = A \<and> list_candidates post = B"
      by (simp add: Cons a)
    then show ?thesis by blast
  qed
next
  case (3 k' v kvs)
  then have "list_candidates kvs = A @ (k, xs) # B" by simp
  from "3"(1) [OF this] obtain pre post where
    "kvs = pre @ (k, Seq xs) # post" "list_candidates pre = A" "list_candidates post = B" by blast
  then have "(k', Scalar v) # kvs = ((k', Scalar v) # pre) @ (k, Seq xs) # post \<and>
      list_candidates ((k', Scalar v) # pre) = A \<and> list_candidates post = B" by simp
  then show ?case by blast
next
  case (4 k' v kvs)
  then have "list_candidates kvs = A @ (k, xs) # B" by simp
  from "4"(1) [OF this] obtain pre post where
    "kvs = pre @ (k, Seq xs) # post" "list_candidates pre = A" "list_candidates post = B" by blast
  then have "(k', Map v) # kvs = ((k', Map v) # pre) @ (k, Seq xs) # post \<and>
      list_candidates ((k', Map v) # pre) = A \<and> list_candidates post = B" by simp
  then show ?case by blast
qed

text \<open>The list that \<open>json_rows\<close> iterates over, split off from the dict around it.\<close>

lemma chosen_list:
  assumes "list_ex (\<lambda>(k, v). is_list v) kvs"
  shows "\<exists>pre k xs post. kvs = pre @ (k, Seq xs) # post \<and>
           (\<forall>ys\<in>snd ` set (list_candidates pre). length ys < length xs) \<and>
           (\<forall>ys\<in>snd ` set (list_candidates post). length ys \<le> length xs) \<and>
           json_rows (Map kvs) =
             map (\<lambda>item. add_non_list_fields kvs (flatten_json item (KStr []))) xs"
proof -
  from assms obtain c cs where c: "list_candidates kvs = c # cs"
    using list_candidates_Nil [of kvs] by (cases "list_candidates kvs") auto
  let ?f = "\<lambda>x :: pykey \<times> node list. length (snd x)"
  obtain k xs where m: "py_max ?f c cs = (k, xs)" by (cases "py_max ?f c cs")
  from py_max_first [of c cs ?f] obtain A B where
    ab: "c # cs = A @ (k, xs) # B" "\<forall>x\<in>set A. ?f x < length xs" "\<forall>x\<in>set B. ?f x \<le> length xs"
    unfolding m by auto
  from list_candidates_split [of kvs A k xs B] obtain pre post where
    p: "kvs = pre @ (k, Seq xs) # post" "list_candidates pre = A" "list_candidates post = B"
    using c ab(1) by auto
  have r: "json_rows (Map kvs) = map (\<lambda>item. add_non_list_fields kvs (flatten_json item (KStr []))) xs"
    by (simp add: c m)
  have q1: "\<forall>ys\<in>snd ` set (list_candidates pre). length ys < length xs"
    using ab(2) unfolding p(2) by auto
  have q2: "\<forall>ys\<in>snd ` set (list_candidates post). length ys \<le> length xs"
    using ab(3) unfolding p(3) by auto
  show ?thesis
    apply (rule exI [of _ pre], rule exI [of _ k], rule exI [of _ xs], rule exI [of _ post])
    apply (intro conjI p(1) q1 q2 r)
    done
qed

lemma add_non_list_fields_lookup:
  "distinct (map fst kvs) \<Longrightarrow>
   map_of (add_non_list_fields kvs flat) k =
     (case map_of (filter (\<lambda>(k, v). \<not> is_list v) kvs) k of
        Some v \<Rightarrow> Some v
      | None \<Rightarrow> map_of flat k)"
proof (induction kvs arbitrary: flat)
  case Nil
  then show ?case by (simp add: add_non_list_fields_def)
next
  case (Cons e kvs)
  obtain k' v' where e: "e = (k', v')" by (cases e)
  have d: "distinct (map fst kvs)" and n: "k' \<notin> fst ` set kvs" using Cons.prems by (auto simp: e)
  have none: "map_of (filter (\<lambda>(k, v). \<not> is_list v) kvs) k' = None"
    using n by (auto simp: map_of_eq_None_iff)
  show ?case
  proof (cases "is_list v'")
    case True
    then have "add_non_list_fields (e # kvs) flat = add_non_list_fields kvs flat"
      by (simp add: add_non_list_fields_def e)
    then show ?thesis using Cons.IH [OF d, of flat] True by (simp add: e)
  next
    case False
    then have "add_non_list_fields (e # kvs) flat = add_non_list_fields kvs (dict_set k' v' flat)"
      by (simp add: add_non_list_fields_def e)
    then show ?thesis
      using Cons.IH [OF d, of "dict_set k' v' flat"] False none
      by (auto simp: e map_of_dict_set split: option.splits)
  qed
qed

lemma add_non_list_fields_root:
  assumes "distinct (map fst kvs)" and "(k, v) \<in> set kvs" and "\<not> is_list v"
  shows "map_of (add_non_list_fields kvs flat) k = Some v"
proof -
  have "distinct (map fst (filter (\<lambda>(k, v). \<not> is_list v) kvs))"
    using assms(1) by (simp add: distinct_map_filter)
  moreover have "(k, v) \<in> set (filter (\<lambda>(k, v). \<not> is_list v) kvs)"
    using assms(2,3) by simp
  ultimately have "map_of (filter (\<lambda>(k, v). \<not> is_list v) kvs) k = Some v" by simp
  then show ?thesis by (simp add: add_non_list_fields_lookup [OF assms(1)])
qed

lemma add_non_list_fields_other:
  assumes "distinct (map fst kvs)" and "\<forall>v. (k, v) \<in> set kvs \<longrightarrow> is_list v"
  shows "map_of (add_non_list_fields kvs flat) k = map_of flat k"
proof -
  have "map_of (filter (\<lambda>(k, v). \<not> is_list v) kvs) k = None"
    using assms(2) by (auto simp: map_of_eq_None_iff)
  then show ?thesis by (simp add: add_non_list_fields_lookup [OF assms(1)])
qed

lemma union_keys_set: "set (union_keys records) = (\<Union>r\<in>set records. fst ` set r)"
  by (auto simp: union_keys_def)

lemma to_dict_records_DataFrame:
  assumes "i < length records"
  shows "to_dict_records (DataFrame records) ! i =
           map (\<lambda>c. (c, cell_of (records ! i) c)) (union_keys records)"
  using assms by (simp add: to_dict_records_def DataFrame_def comp_def)

lemma map_of_tabulate: "map_of (map (\<lambda>c. (c, f c)) ks) k = (if k \<in> set ks then Some (f k) else None)"
  by (induction ks) auto

lemma frame_cell:
  assumes "i < length records" and "map_of (records ! i) k = Some v"
  shows "map_of (to_dict_records (DataFrame records) ! i) k = Some v"
proof -
  have "k \<in> fst ` set (records ! i)" using assms(2) map_of_eq_None_iff [of "records ! i" k] by auto
  then have "k \<in> set (union_keys records)"
    using assms(1) by (auto simp: union_keys_set intro!: bexI [of _ "records ! i"])
  then show ?thesis
    using assms by (simp add: to_dict_records_DataFrame map_of_tabulate cell_of_def)
qed

lemma chosen_list_bounds:
  assumes "kvs = pre @ (k, Seq xs) # post"
    and "\<forall>ys\<in>snd ` set (list_candidates pre). length ys < length xs"
    and "\<forall>ys\<in>snd ` set (list_candidates post). length ys \<le> length xs"
  shows "\<forall>(k', v)\<in>set pre. \<forall>ys. v = Seq ys \<longrightarrow> length ys < length xs"
    and "\<forall>(k', v)\<in>set post. \<forall>ys. v = Seq ys \<longrightarrow> length ys \<le> length xs"
    and "\<forall>(k', ys)\<in>set (list_candidates kvs). length ys \<le> length xs"
    and "(k, xs) \<in> set (list_candidates kvs)"
proof -
  have a: "length ys < length xs" if "(k', Seq ys) \<in> set pre" for k' ys
  proof -
    from that have "(k', ys) \<in> set (list_candidates pre)" by (simp add: list_candidates_set)
    then have "snd (k', ys) \<in> snd ` set (list_candidates pre)" by (rule imageI)
    from bspec [OF assms(2) this] show ?thesis by simp
  qed
  have b: "length ys \<le> length xs" if "(k', Seq ys) \<in> set post" for k' ys
  proof -
    from that have "(k', ys) \<in> set (list_candidates post)" by (simp add: list_candidates_set)
    then have "snd (k', ys) \<in> snd ` set (list_candidates post)" by (rule imageI)
    from bspec [OF assms(3) this] show ?thesis by simp
  qed
  have c: "length ys \<le> length xs" if "(k', ys) \<in> set (list_candidates kvs)" for k' ys
  proof -
    from that have "(k', Seq ys) \<in> set kvs" by (simp add: list_candidates_set)
    then consider "(k', Seq ys) \<in> set pre" | "ys = xs" | "(k', Seq ys) \<in> set post"
      unfolding assms(1) by auto
    then show ?thesis
    proof cases
      case 1
      from a [OF this] show ?thesis by simp
    next
      case 2
      then show ?thesis by simp
    next
      case 3
      from b [OF this] show ?thesis .
    qed
  qed
  show "\<forall>(k', v)\<in>set pre. \<forall>ys. v = Seq ys \<longrightarrow> length ys < length xs"
    using a by (simp add: split_beta) (metis prod.collapse)
  show "\<forall>(k', v)\<in>set post. \<forall>ys. v = Seq ys \<longrightarrow> length ys \<le> length xs"
    using b by (simp add: split_beta) (metis prod.collapse)
  show "\<forall>(k', ys)\<in>set (list_candidates kvs). length ys \<le> length xs"
    using c by (simp add: split_beta) (metis prod.collapse)
  show "(k, xs) \<in> set (list_candidates kvs)"
    unfolding assms(1) by (simp add: list_candidates_set)
qed

text \<open>
  C10. Row \<open>i\<close> for the chosen list is the flattened element \<open>i\<close> into which the
  root's fields that are no lists are then written, in the order of the root: such a
  field is found in the row under its own key with its own value, whatever flattening the
  element gave for that key, and every other key has the value from the flattened element.
\<close>

theorem root_fields_override:
  assumes "distinct (map fst kvs)"
    and "list_candidates kvs = c # cs"
    and "py_max (\<lambda>x. length (snd x)) c cs = (root_key, largest_list)"
    and "i < length largest_list"
  shows "json_rows (Map kvs) ! i =
           add_non_list_fields kvs (flatten_json (largest_list ! i) (KStr [])) \<and>
         add_non_list_fields kvs (flatten_json (largest_list ! i) (KStr [])) =
           fold (\<lambda>(k, v) flat. if \<not> is_list v then dict_set k v flat else flat) kvs
             (flatten_json (largest_list ! i) (KStr [])) \<and>
         (\<forall>(k, v)\<in>set kvs. \<not> is_list v \<longrightarrow>
            map_of (json_rows (Map kvs) ! i) k = Some v \<and>
            map_of (to_dict_records (DataFrame (json_rows (Map kvs))) ! i) k = Some v) \<and>
         (\<forall>k. (\<forall>v. (k, v) \<in> set kvs \<longrightarrow> is_list v) \<longrightarrow>
            map_of (json_rows (Map kvs) ! i) k = map_of (flatten_json (largest_list ! i) (KStr [])) k)"
proof -
  let ?flat = "flatten_json (largest_list ! i) (KStr [])"
  have r: "json_rows (Map kvs) = map (\<lambda>item. add_non_list_fields kvs (flatten_json item (KStr []))) largest_list"
    by (simp add: assms(2) assms(3))
  have a: "json_rows (Map kvs) ! i = add_non_list_fields kvs ?flat"
    using assms(4) by (simp only: r nth_map)
  have il: "i < length (json_rows (Map kvs))" using assms(4) by (simp only: r length_map)
  have b: "add_non_list_fields kvs ?flat =
           fold (\<lambda>(k, v) flat. if \<not> is_list v then dict_set k v flat else flat) kvs ?flat"
    by (simp add: add_non_list_fields_def)
  have c: "\<forall>(k, v)\<in>set kvs. \<not> is_list v \<longrightarrow>
            map_of (json_rows (Map kvs) ! i) k = Some v \<and>
            map_of (to_dict_records (DataFrame (json_rows (Map kvs))) ! i) k = Some v"
  proof (clarify)
    fix k v assume m: "(k, v) \<in> set kvs" and v: "\<not> is_list v"
    have x: "map_of (json_rows (Map kvs) ! i) k = Some v"
      unfolding a by (rule add_non_list_fields_root [OF assms(1) m v])
    from frame_cell [OF il x] x
    show "map_of (json_rows (Map kvs) ! i) k = Some v \<and>
          map_of (to_dict_records (DataFrame (json_rows (Map kvs))) ! i) k = Some v" by simp
  qed
  have d: "\<forall>k. (\<forall>v. (k, v) \<in> set kvs \<longrightarrow> is_list v) \<longrightarrow>
            map_of (json_rows (Map kvs) ! i) k = map_of ?flat k"
    unfolding a using add_non_list_fields_other [OF assms(1)] by blast
  show ?thesis
    apply (rule conjI, rule a)
    apply (rule conjI, rule b)
    apply (rule conjI, rule c)
    apply (rule d)
    done
qed

lemma collision_facts:
  "distinct (map fst collision_doc)"
  "list_candidates collision_doc =
     [(KStr ''items'', [Map [(KStr ''sku'', Scalar (SStr ''A'')), (KStr ''qty'', Scalar (SInt 3))]])]"
  "py_max (\<lambda>x. length (snd x))
      (KStr ''items'', [Map [(KStr ''sku'', Scalar (SStr ''A'')), (KStr ''qty'', Scalar (SInt 3))]]) [] =
     (KStr ''items'', [Map [(KStr ''sku'', Scalar (SStr ''A'')), (KStr ''qty'', Scalar (SInt 3))]])"
  "(0::nat) < length [Map [(KStr ''sku'', Scalar (SStr ''A'')), (KStr ''qty'', Scalar (SInt 3))]]"
  by (simp_all add: collision_doc_def)

lemma collision_rows:
  "flatten_json (Map [(KStr ''sku'', Scalar (SStr ''A'')), (KStr ''qty'', Scalar (SInt 3))]) (KStr []) =
     [(KStr ''unknown_sku'', Scalar (SStr ''A'')), (KStr ''unknown_qty'', Scalar (SInt 3))]"
  "json_rows (Map collision_doc) ! 0 =
     [(KStr ''unknown_sku'', Map [(KStr ''x'', Scalar (SInt 1))]),
      (KStr ''unknown_qty'', Scalar (SInt 3)),
      (KStr [], Scalar (SInt 2))]"
  by code_simp+

theorem root_fields_override_witness:
  "distinct (map fst collision_doc) \<and>
   list_candidates collision_doc =
     [(KStr ''items'', [Map [(KStr ''sku'', Scalar (SStr ''A'')), (KStr ''qty'', Scalar (SInt 3))]])] \<and>
   flatten_json (Map [(KStr ''sku'', Scalar (SStr ''A'')), (KStr ''qty'', Scalar (SInt 3))]) (KStr []) =
     [(KStr ''unknown_sku'', Scalar (SStr ''A'')), (KStr ''unknown_qty'', Scalar (SInt 3))] \<and>
   json_rows (Map collision_doc) ! 0 =
     [(KStr ''unknown_sku'', Map [(KStr ''x'', Scalar (SInt 1))]),
      (KStr ''unknown_qty'', Scalar (SInt 3)),
      (KStr [], Scalar (SInt 2))]"
  using root_fields_override [OF collision_facts]
  apply -
  apply (intro conjI)
     apply (rule collision_facts(1))
    apply (rule collision_facts(2))
   apply (rule collision_rows(1))
  apply (rule collision_rows(2))
  done

section \<open>Failures of extract_data\<close>

lemma height_pos: "0 < height v"
  by (cases v) simp_all




lemma deep_flatten_lim_enough:
  "height v \<le> n \<Longrightarrow> deep_flatten_value_lim n p v out = Inr (deep_flatten_value p v out)"
  "height_items kvs \<le> n \<Longrightarrow> deep_flatten_items_lim n q kvs out = Inr (deep_flatten_items q kvs out)"
  "height_list xs \<le> n \<Longrightarrow> deep_flatten_enum_lim n q i xs out = Inr (deep_flatten_enum q i xs out)"
proof (induction n p v out and n q kvs out and n q i xs out
    rule: deep_flatten_value_lim_deep_flatten_items_lim_deep_flatten_enum_lim.induct)
  case (1 prefix v out)
  then show ?case using height_pos [of v] by simp
next
  case (2 n prefix kvs out)
  then show ?case by simp
next
  case (3 n prefix xs out)
  then show ?case by simp
next
  case (4 n prefix s out)
  then show ?case by simp
next
  case (5 n p out)
  then show ?case by simp
next
  case (6 n p k v kvs out)
  then show ?case by simp
next
  case (7 n p i out)
  then show ?case by simp
next
  case (8 n p i x xs out)
  then show ?case by simp
qed




lemma try_map_raises: "x \<in> set xs \<Longrightarrow> f x = Inl e \<Longrightarrow> \<exists>e'. try_map f xs = Inl e'"
  by (induction xs) (auto split: sum.splits)




lemma example_call: "extract_data_call quiet_runtime example_env ''data.json'' = Inr example_frame"
  by code_simp





section \<open>Key safety\<close>

lemma dict_set_key_kept:
  "k \<noteq> KStr [] \<Longrightarrow> k \<noteq> KNone \<Longrightarrow> \<forall>x\<in>fst ` set out. x \<noteq> KStr [] \<and> x \<noteq> KNone \<Longrightarrow>
   \<forall>x\<in>fst ` set (dict_set k v out). x \<noteq> KStr [] \<and> x \<noteq> KNone"
  by (simp add: dict_set_keys)

lemma deep_flatten_row_written:
  "k \<in> fst ` set (deep_flatten_row row) \<Longrightarrow> k \<noteq> KStr [] \<and> k \<noteq> KNone"
proof -
  have "\<forall>x\<in>fst ` set (deep_flatten_row row). x \<noteq> KStr [] \<and> x \<noteq> KNone"
    by (rule deep_flatten_row_invariant
        [where P = "\<lambda>out. \<forall>x\<in>fst ` set out. x \<noteq> KStr [] \<and> x \<noteq> KNone"])
       (simp_all add: dict_set_keys)
  then show "k \<in> fst ` set (deep_flatten_row row) \<Longrightarrow> k \<noteq> KStr [] \<and> k \<noteq> KNone" by blast
qed

lemma deep_flatten_value_written:
  "k \<in> fst ` set (deep_flatten_value q v []) \<Longrightarrow> k \<noteq> KStr [] \<and> k \<noteq> KNone"
proof -
  have "\<forall>x\<in>fst ` set (deep_flatten_value q v []). x \<noteq> KStr [] \<and> x \<noteq> KNone"
    by (rule deep_flatten_invariant(1)
        [where P = "\<lambda>out. \<forall>x\<in>fst ` set out. x \<noteq> KStr [] \<and> x \<noteq> KNone"])
       (simp_all add: dict_set_keys)
  then show "k \<in> fst ` set (deep_flatten_value q v []) \<Longrightarrow> k \<noteq> KStr [] \<and> k \<noteq> KNone" by blast
qed

lemma key_kinds:
  "k \<noteq> KStr [] \<Longrightarrow> k \<noteq> KNone \<Longrightarrow> (\<exists>s. k = KStr s \<and> s \<noteq> []) \<or> (\<exists>i. k = KInt i)"
  by (cases k) auto

lemma clean_key_string: "clean_key k \<Longrightarrow> \<exists>s. k = KStr s \<and> s \<noteq> []"
  by (auto simp: clean_key_def)

lemma deep_flatten_row_key_kinds:
  assumes "k \<in> fst ` set (deep_flatten_row row)"
  shows "(\<exists>s. k = KStr s \<and> s \<noteq> []) \<or> (\<exists>i. k = KInt i \<and> k \<in> fst ` set row)"
proof -
  from deep_flatten_row_written [OF assms] have "(\<exists>s. k = KStr s \<and> s \<noteq> []) \<or> (\<exists>i. k = KInt i)"
    by (intro key_kinds) simp_all
  moreover from deep_flatten_row_top [OF assms] have "k \<in> fst ` set row \<or> (\<exists>s. k = KStr s \<and> s \<noteq> [])"
    using clean_key_string by blast
  ultimately show ?thesis by blast
qed

lemma deep_flatten_value_key_kinds:
  assumes "k \<in> fst ` set (deep_flatten_value q v [])"
  shows "(\<exists>s. k = KStr s \<and> s \<noteq> []) \<or> (\<exists>i. k = KInt i \<and> k = q)"
proof -
  from deep_flatten_value_written [OF assms] have "(\<exists>s. k = KStr s \<and> s \<noteq> []) \<or> (\<exists>i. k = KInt i)"
    by (intro key_kinds) simp_all
  moreover from deep_flatten_value_top [OF assms] have "k = q \<or> (\<exists>s. k = KStr s \<and> s \<noteq> [])"
    using clean_key_string by auto
  ultimately show ?thesis by blast
qed

text \<open>
  C6 (as amended). Every key of a row produced by \<open>flatten_json\<close> is a non-empty
  string. Every key of a row produced by \<open>deep_flatten_value\<close> or \<open>deep_flatten_row\<close>
  is a non-empty string or an integer top-level key, which is stored as it is. When the
  only content of a document lies under a null or empty-string key, \<open>flatten_json\<close> with
  the empty prefix puts that content under keys that start with \<open>unknown_unknown\<close> (the
  placeholder of the empty prefix, the separator, the placeholder of the key); a scalar
  there is stored under \<open>unknown_unknown\<close> itself.
\<close>

theorem flat_keys_nonempty:
  "(\<forall>k\<in>fst ` set (flatten_json d p). \<exists>s. k = KStr s \<and> s \<noteq> []) \<and>
   (\<forall>k\<in>fst ` set (deep_flatten_value q v []).
      (\<exists>s. k = KStr s \<and> s \<noteq> []) \<or> (\<exists>i. k = KInt i \<and> k = q)) \<and>
   (\<forall>k\<in>fst ` set (deep_flatten_row row).
      (\<exists>s. k = KStr s \<and> s \<noteq> []) \<or> (\<exists>i. k = KInt i \<and> k \<in> fst ` set row)) \<and>
   (deep_flatten_value (KInt i) (Scalar x) out = dict_set (KInt i) (leaf_value x) out) \<and>
   (key = KNone \<or> key = KStr [] \<longrightarrow>
      flatten_json (Map [(key, w)]) (KStr []) = flatten_json w (KStr ''unknown_unknown'') \<and>
      flatten_json (Map [(key, Scalar x)]) (KStr []) = [(KStr ''unknown_unknown'', leaf_value x)])"
proof -
  have a: "\<forall>k\<in>fst ` set (flatten_json d p). \<exists>s. k = KStr s \<and> s \<noteq> []"
    using flatten_json_keys by blast
  have b: "\<forall>k\<in>fst ` set (deep_flatten_value q v []).
      (\<exists>s. k = KStr s \<and> s \<noteq> []) \<or> (\<exists>i. k = KInt i \<and> k = q)"
    using deep_flatten_value_key_kinds by blast
  have c: "\<forall>k\<in>fst ` set (deep_flatten_row row).
      (\<exists>s. k = KStr s \<and> s \<noteq> []) \<or> (\<exists>i. k = KInt i \<and> k \<in> fst ` set row)"
    using deep_flatten_row_key_kinds by blast
  have i: "deep_flatten_value (KInt i) (Scalar x) out = dict_set (KInt i) (leaf_value x) out"
    by simp
  have u: "normalize_key (KStr ''unknown_unknown'') = ''unknown_unknown''"
    using normalize_key_composed [of "''unknown''" "''unknown''"] by simp
  have d: "key = KNone \<or> key = KStr [] \<longrightarrow>
      flatten_json (Map [(key, w)]) (KStr []) = flatten_json w (KStr ''unknown_unknown'') \<and>
      flatten_json (Map [(key, Scalar x)]) (KStr []) = [(KStr ''unknown_unknown'', leaf_value x)]"
    by (auto simp: flatten_json_single normalize_key_empty) (simp_all add: flatten_json_def u)
  show ?thesis
    apply (rule conjI, rule a)
    apply (rule conjI, rule b)
    apply (rule conjI, rule c)
    apply (rule conjI, rule i)
    apply (rule d)
    done
qed

theorem flat_keys_nonempty_witness:
  "KStr ''unknown_unknown'' \<in> fst ` set (flatten_json (Map [(KNone, Scalar (SInt 5))]) (KStr [])) \<and>
   flatten_json (Map [(KNone, Scalar (SInt 5))]) (KStr []) = [(KStr ''unknown_unknown'', Scalar (SInt 5))] \<and>
   deep_flatten_value (KInt 0) (Scalar (SInt 5)) [] = [(KInt 0, Scalar (SInt 5))]"
  using flat_keys_nonempty [of "Map [(KNone, Scalar (SInt 5))]" "KStr []" KNone "Scalar SNone" "[]"
      0 "SInt 5" "[]" KNone "Scalar SNone"]
  by (simp add: leaf_value_def)

text \<open>
  The content under an empty key is not found under the key \<open>unknown\<close>, and the integer
  key of a row is a key of the flattened row.
\<close>

theorem unknown_key_counterexample:
  "flatten_json (Map [(KStr [], Scalar (SInt 5))]) (KStr []) = [(KStr ''unknown_unknown'', Scalar (SInt 5))] \<and>
   map_of (flatten_json (Map [(KStr [], Scalar (SInt 5))]) (KStr [])) (KStr ''unknown'') = None \<and>
   deep_flatten_row [(KInt 0, Scalar (SInt 5))] = [(KInt 0, Scalar (SInt 5))]"
  by code_simp

section \<open>Null leaves\<close>

lemma recurse_leaves:
  "recurse v p out =
     fold (\<lambda>(k, s). dict_set (KStr k) (leaf_value s)) (json_leaves (normalize_key p) v) out"
  "recurse_items kvs kp out =
     fold (\<lambda>(k, s). dict_set (KStr k) (leaf_value s)) (json_leaves_items kp kvs) out"
  "recurse_enum xs i kp out =
     fold (\<lambda>(k, s). dict_set (KStr k) (leaf_value s)) (json_leaves_enum kp i xs) out"
proof (induction v p out and kvs kp out and xs i kp out
    rule: recurse_recurse_items_recurse_enum.induct)
  case (1 kvs key_prefix out)
  then show ?case by simp
next
  case (2 xs key_prefix out)
  then show ?case by simp
next
  case (3 s key_prefix out)
  show ?case by (simp add: normalize_key_idem)
next
  case (4 kp out)
  show ?case by simp
next
  case (5 k v kvs kp out)
  have n: "normalize_key (KStr (kp @ ''_'' @ normalize_key k)) = kp @ ''_'' @ normalize_key k"
    using normalize_key_composed [of kp "normalize_key k"] by simp
  show ?case using "5.IH" by (simp only: recurse.simps recurse_items.simps json_leaves_items.simps n fold_append comp_apply)
next
  case (6 i kp out)
  show ?case by simp
next
  case (7 x xs i kp out)
  have n: "normalize_key (KStr (kp @ ''_'' @ str_nat i)) = kp @ ''_'' @ str_nat i"
    using normalize_key_composed [of kp "str_nat i"] by simp
  show ?case using "7.IH" by (simp only: recurse_enum.simps json_leaves_enum.simps n fold_append comp_apply)
qed

lemma deep_flatten_leaves:
  "deep_flatten_value p v out =
     fold (\<lambda>(k, s). dict_set k (leaf_value s)) (deep_leaves p v) out"
  "deep_flatten_items q kvs out =
     fold (\<lambda>(k, s). dict_set k (leaf_value s)) (deep_leaves_items q kvs) out"
  "deep_flatten_enum q i xs out =
     fold (\<lambda>(k, s). dict_set k (leaf_value s)) (deep_leaves_enum q i xs) out"
proof (induction p v out and q kvs out and q i xs out
    rule: deep_flatten_value_deep_flatten_items_deep_flatten_enum.induct)
  case (1 prefix kvs out)
  then show ?case by simp
next
  case (2 prefix xs out)
  then show ?case by simp
next
  case (3 prefix s out)
  show ?case by simp
next
  case (4 p out)
  show ?case by simp
next
  case (5 p k v kvs out)
  show ?case using "5.IH" by (simp only: deep_flatten_items.simps deep_leaves_items.simps fold_append comp_apply)
next
  case (6 p i out)
  show ?case by simp
next
  case (7 p i x xs out)
  show ?case using "7.IH" by (simp only: deep_flatten_enum.simps deep_leaves_enum.simps fold_append comp_apply)
qed

lemma deep_flatten_row_leaves:
  "deep_flatten_row row = fold (\<lambda>(k, s). dict_set k (leaf_value s)) (row_leaves row) []"
proof -
  have "fold (\<lambda>(key, val) flat. deep_flatten_value key val flat) row acc =
        fold (\<lambda>(k, s). dict_set k (leaf_value s)) (concat (map (\<lambda>(k, v). deep_leaves k v) row)) acc" for acc
    by (induction row arbitrary: acc) (auto simp: deep_flatten_leaves(1))
  then show ?thesis by (simp add: deep_flatten_row_def row_leaves_def)
qed

lemma map_of_fold_dict_set:
  "map_of (fold (\<lambda>(k, s). dict_set (f k) (g s)) ls out) x =
     (case map_of (rev (map (\<lambda>(k, s). (f k, g s)) ls)) x of
        Some y \<Rightarrow> Some y
      | None \<Rightarrow> map_of out x)"
proof (induction ls arbitrary: out)
  case Nil
  show ?case by simp
next
  case (Cons a ls)
  obtain k s where a: "a = (k, s)" by (cases a)
  show ?case
    using Cons.IH [of "dict_set (f k) (g s) out"]
    by (auto simp: a map_of_dict_set map_add_def split: option.splits)
qed

lemma map_of_rev_tagged:
  assumes "inj f"
  shows "map_of (rev (map (\<lambda>(k, s). (f k, g s)) ls)) (f k) = map_option g (map_of (rev ls) k)"
proof -
  have "map_of (map (\<lambda>(k, s). (f k, g s)) ms) (f k) = map_option g (map_of ms k)" for ms
    using assms by (induction ms) (auto simp: inj_eq)
  from this [of "rev ls"] show ?thesis by (simp add: rev_map)
qed

lemma last_write_json:
  "map_of (flatten_json d p) (KStr k) =
     map_option leaf_value (map_of (rev (json_leaves (normalize_key p) d)) k)"
proof -
  have i: "inj KStr" by (simp add: inj_def)
  show ?thesis
    unfolding flatten_json_def recurse_leaves(1) map_of_fold_dict_set map_of_rev_tagged [OF i]
    by (simp split: option.splits)
qed

lemma last_write_row:
  "map_of (deep_flatten_row row) q = map_option leaf_value (map_of (rev (row_leaves row)) q)"
proof -
  have i: "inj (\<lambda>k :: pykey. k)" by (simp add: inj_def)
  show ?thesis
    unfolding deep_flatten_row_leaves map_of_fold_dict_set map_of_rev_tagged [OF i]
    by (simp split: option.splits)
qed

lemma only_null_leaves:
  assumes "(k, SNone) \<in> set ls" and "\<forall>s. (k, s) \<in> set ls \<longrightarrow> s = SNone"
  shows "map_option leaf_value (map_of (rev ls) k) = Some (Scalar (SStr []))"
proof -
  have "k \<in> fst ` set (rev ls)" using assms(1) by force
  then obtain s where s: "map_of (rev ls) k = Some s"
    using map_of_eq_None_iff [of "rev ls" k] by auto
  then have "(k, s) \<in> set ls" using map_of_SomeD [OF s] by simp
  then have "s = SNone" using assms(2) by blast
  then show ?thesis by (simp add: s leaf_value_def)
qed

lemma row_leaves_keys: "(q, s) \<in> set (row_leaves row) \<Longrightarrow> q \<noteq> KStr [] \<and> q \<noteq> KNone"
proof -
  have a: "\<forall>(q, s)\<in>set (deep_leaves p v). q \<noteq> KStr [] \<and> q \<noteq> KNone"
    and b: "\<forall>(q, s)\<in>set (deep_leaves_items r kvs). q \<noteq> KStr [] \<and> q \<noteq> KNone"
    and c: "\<forall>(q, s)\<in>set (deep_leaves_enum r i xs). q \<noteq> KStr [] \<and> q \<noteq> KNone"
    for p v r kvs i xs
    by (induction p v and r kvs and r i xs rule: deep_leaves_deep_leaves_items_deep_leaves_enum.induct)
       auto
  assume "(q, s) \<in> set (row_leaves row)"
  then obtain p v where "(q, s) \<in> set (deep_leaves p v)"
    by (auto simp: row_leaves_def)
  with a [of p v] show ?thesis by auto
qed

lemma row_leaves_top:
  "(k, Scalar s) \<in> set row \<Longrightarrow> k \<noteq> KStr [] \<Longrightarrow> k \<noteq> KNone \<Longrightarrow> (k, s) \<in> set (row_leaves row)"
  by (force simp: row_leaves_def)

text \<open>
  C7 (as amended). Both flatteners write their leaves in document order, each under its
  path key, a \<open>None\<close> as the empty string and every other scalar, NaN included, as it
  is. So the row holds under a path key the value written for the last leaf with that
  key: the empty string for a \<open>None\<close> leaf unless a later leaf with the same path key
  has another value, in particular whenever all leaves with that key are \<open>None\<close>. No
  row holds \<open>None\<close>. The leaves of the row re-flattener have non-empty keys, and a
  top-level scalar under a non-empty key is one of them.
\<close>

theorem null_leaf_stored_as_empty_string:
  "flatten_json d p =
     fold (\<lambda>(k, s). dict_set (KStr k) (leaf_value s)) (json_leaves (normalize_key p) d) [] \<and>
   deep_flatten_row row = fold (\<lambda>(k, s). dict_set k (leaf_value s)) (row_leaves row) [] \<and>
   map_of (flatten_json d p) (KStr k) =
     map_option leaf_value (map_of (rev (json_leaves (normalize_key p) d)) k) \<and>
   map_of (deep_flatten_row row) q = map_option leaf_value (map_of (rev (row_leaves row)) q) \<and>
   ((k, SNone) \<in> set (json_leaves (normalize_key p) d) \<and>
    (\<forall>s. (k, s) \<in> set (json_leaves (normalize_key p) d) \<longrightarrow> s = SNone)
      \<longrightarrow> map_of (flatten_json d p) (KStr k) = Some (Scalar (SStr []))) \<and>
   ((q, SNone) \<in> set (row_leaves row) \<and> (\<forall>s. (q, s) \<in> set (row_leaves row) \<longrightarrow> s = SNone)
      \<longrightarrow> map_of (deep_flatten_row row) q = Some (Scalar (SStr []))) \<and>
   ((q, x) \<in> set (row_leaves row) \<longrightarrow> q \<noteq> KStr [] \<and> q \<noteq> KNone) \<and>
   ((q, Scalar x) \<in> set row \<and> q \<noteq> KStr [] \<and> q \<noteq> KNone \<longrightarrow> (q, x) \<in> set (row_leaves row)) \<and>
   Scalar SNone \<notin> snd ` set (flatten_json d p) \<and>
   Scalar SNone \<notin> snd ` set (deep_flatten_row row) \<and>
   leaf_value SNone = Scalar (SStr []) \<and> leaf_value nan = Scalar nan"
proof -
  have a: "flatten_json d p =
     fold (\<lambda>(k, s). dict_set (KStr k) (leaf_value s)) (json_leaves (normalize_key p) d) []"
    by (simp add: flatten_json_def recurse_leaves(1))
  have e: "(k, SNone) \<in> set (json_leaves (normalize_key p) d) \<and>
    (\<forall>s. (k, s) \<in> set (json_leaves (normalize_key p) d) \<longrightarrow> s = SNone)
      \<longrightarrow> map_of (flatten_json d p) (KStr k) = Some (Scalar (SStr []))"
  proof (intro impI, elim conjE)
    assume 1: "(k, SNone) \<in> set (json_leaves (normalize_key p) d)"
      and 2: "\<forall>s. (k, s) \<in> set (json_leaves (normalize_key p) d) \<longrightarrow> s = SNone"
    show "map_of (flatten_json d p) (KStr k) = Some (Scalar (SStr []))"
      unfolding last_write_json by (rule only_null_leaves [OF 1 2])
  qed
  have f: "(q, SNone) \<in> set (row_leaves row) \<and> (\<forall>s. (q, s) \<in> set (row_leaves row) \<longrightarrow> s = SNone)
      \<longrightarrow> map_of (deep_flatten_row row) q = Some (Scalar (SStr []))"
  proof (intro impI, elim conjE)
    assume 1: "(q, SNone) \<in> set (row_leaves row)"
      and 2: "\<forall>s. (q, s) \<in> set (row_leaves row) \<longrightarrow> s = SNone"
    show "map_of (deep_flatten_row row) q = Some (Scalar (SStr []))"
      unfolding last_write_row by (rule only_null_leaves [OF 1 2])
  qed
  have g: "(q, x) \<in> set (row_leaves row) \<longrightarrow> q \<noteq> KStr [] \<and> q \<noteq> KNone"
    using row_leaves_keys by blast
  have h: "(q, Scalar x) \<in> set row \<and> q \<noteq> KStr [] \<and> q \<noteq> KNone \<longrightarrow> (q, x) \<in> set (row_leaves row)"
    using row_leaves_top by blast
  have n: "leaf_value SNone = Scalar (SStr [])" "leaf_value nan = Scalar nan"
    by (simp_all add: leaf_value_def nan_def)
  show ?thesis
    apply (rule conjI, rule a)
    apply (rule conjI, rule deep_flatten_row_leaves)
    apply (rule conjI, rule last_write_json)
    apply (rule conjI, rule last_write_row)
    apply (rule conjI, rule e)
    apply (rule conjI, rule f)
    apply (rule conjI, rule g)
    apply (rule conjI, rule h)
    apply (rule conjI, rule flatten_json_no_null)
    apply (rule conjI, rule deep_flatten_row_no_null)
    apply (rule conjI, rule n(1))
    apply (rule n(2))
    done
qed

lemma nested_nulls_facts:
  "json_leaves (normalize_key (KStr [])) nested_nulls_doc =
     [(''unknown_a_b'', SNone), (''unknown_c_0'', SNone), (''unknown_c_1'', SInt 1)]"
  "flatten_json nested_nulls_doc (KStr []) =
     [(KStr ''unknown_a_b'', Scalar (SStr [])), (KStr ''unknown_c_0'', Scalar (SStr [])),
      (KStr ''unknown_c_1'', Scalar (SInt 1))]"
  "row_leaves [(KStr ''r'', nested_nulls_doc)] =
     [(KStr ''r_a_b'', SNone), (KStr ''r_c_0'', SNone), (KStr ''r_c_1'', SInt 1)]"
  "deep_flatten_row [(KStr ''r'', nested_nulls_doc)] =
     [(KStr ''r_a_b'', Scalar (SStr [])), (KStr ''r_c_0'', Scalar (SStr [])),
      (KStr ''r_c_1'', Scalar (SInt 1))]"
  by code_simp+

theorem null_leaf_stored_as_empty_string_witness:
  "json_leaves (normalize_key (KStr [])) nested_nulls_doc =
     [(''unknown_a_b'', SNone), (''unknown_c_0'', SNone), (''unknown_c_1'', SInt 1)] \<and>
   flatten_json nested_nulls_doc (KStr []) =
     [(KStr ''unknown_a_b'', Scalar (SStr [])), (KStr ''unknown_c_0'', Scalar (SStr [])),
      (KStr ''unknown_c_1'', Scalar (SInt 1))] \<and>
   row_leaves [(KStr ''r'', nested_nulls_doc)] =
     [(KStr ''r_a_b'', SNone), (KStr ''r_c_0'', SNone), (KStr ''r_c_1'', SInt 1)] \<and>
   deep_flatten_row [(KStr ''r'', nested_nulls_doc)] =
     [(KStr ''r_a_b'', Scalar (SStr [])), (KStr ''r_c_0'', Scalar (SStr [])),
      (KStr ''r_c_1'', Scalar (SInt 1))] \<and>
   map_of (flatten_json nested_nulls_doc (KStr [])) (KStr ''unknown_a_b'') = Some (Scalar (SStr [])) \<and>
   map_of (deep_flatten_row [(KStr ''r'', nested_nulls_doc)]) (KStr ''r_c_0'') = Some (Scalar (SStr []))"
proof -
  note t = null_leaf_stored_as_empty_string
    [of nested_nulls_doc "KStr []" "[(KStr ''r'', nested_nulls_doc)]" "''unknown_a_b''" "KStr ''r_c_0''" SNone]
  have j: "map_of (flatten_json nested_nulls_doc (KStr [])) (KStr ''unknown_a_b'') = Some (Scalar (SStr []))"
    using t [THEN conjunct2, THEN conjunct2, THEN conjunct1]
    by (simp add: nested_nulls_facts(1) leaf_value_def)
  have r: "map_of (deep_flatten_row [(KStr ''r'', nested_nulls_doc)]) (KStr ''r_c_0'') = Some (Scalar (SStr []))"
    using t [THEN conjunct2, THEN conjunct2, THEN conjunct2, THEN conjunct1]
    by (simp add: nested_nulls_facts(3) leaf_value_def)
  show ?thesis
    apply (rule conjI, rule nested_nulls_facts(1))
    apply (rule conjI, rule nested_nulls_facts(2))
    apply (rule conjI, rule nested_nulls_facts(3))
    apply (rule conjI, rule nested_nulls_facts(4))
    apply (rule conjI, rule j)
    apply (rule r)
    done
qed

text \<open>
  Under the key of a \<open>None\<close> leaf the row holds the value of a later leaf with the same
  key, and NaN, the value of an absent cell, is stored as NaN.
\<close>

theorem null_leaf_counterexample:
  "flatten_json (Map overwritten_doc) (KStr []) = [(KStr ''unknown_a_b'', Scalar (SInt 1))] \<and>
   deep_flatten_row [(KStr ''r'', Map overwritten_doc)] = [(KStr ''r_a_b'', Scalar (SInt 1))] \<and>
   flatten_json (Scalar nan) (KStr ''a'') = [(KStr ''a'', Scalar nan)] \<and>
   deep_flatten_row [(KStr ''a'', Scalar nan)] = [(KStr ''a'', Scalar nan)] \<and>
   Scalar nan \<noteq> Scalar (SStr [])"
  by code_simp

section \<open>The chosen list\<close>

text \<open>
  C4. For a root dict with at least one list-valued field, the rows are built from the
  list of a field whose list is strictly longer than every list before it and at least
  as long as every list after it (the first of the longest): the rows are the flattened
  elements of that list, in order, each with the root's fields that are no lists written
  into it. So there is exactly one row per element of that list, in the records and in
  the frame, and every field of the root that is no list is in every row with its value.
  With exactly two list-valued fields, of lengths 3 and 5 in either order, the chosen list
  has length 5 and there are 5 rows.
\<close>

theorem largest_list_gives_rows:
  assumes "distinct (map fst kvs)" and "list_ex (\<lambda>(k, v). is_list v) kvs"
  shows "\<exists>pre k xs post.
           kvs = pre @ (k, Seq xs) # post \<and>
           (\<forall>(k', v)\<in>set pre. \<forall>ys. v = Seq ys \<longrightarrow> length ys < length xs) \<and>
           (\<forall>(k', v)\<in>set post. \<forall>ys. v = Seq ys \<longrightarrow> length ys \<le> length xs) \<and>
           json_rows (Map kvs) =
             map (\<lambda>item. add_non_list_fields kvs (flatten_json item (KStr []))) xs \<and>
           length (json_rows (Map kvs)) = length xs \<and>
           nrows (DataFrame (json_rows (Map kvs))) = length xs \<and>
           (load fp = Inr (Map kvs) \<longrightarrow>
              extract_json_safely load fp = Inr (DataFrame (json_rows (Map kvs)))) \<and>
           (\<forall>i<length xs. \<forall>(k', v)\<in>set kvs. \<not> is_list v \<longrightarrow>
              map_of (json_rows (Map kvs) ! i) k' = Some v \<and>
              map_of (to_dict_records (DataFrame (json_rows (Map kvs))) ! i) k' = Some v) \<and>
           (\<forall>k1 xs1 k2 xs2.
              list_candidates kvs = [(k1, xs1), (k2, xs2)] \<and>
              (length xs1 = 3 \<and> length xs2 = 5 \<or> length xs1 = 5 \<and> length xs2 = 3)
              \<longrightarrow> length xs = 5 \<and> length (json_rows (Map kvs)) = 5)"
proof -
  from chosen_list [OF assms(2)] obtain pre k xs post where
    s: "kvs = pre @ (k, Seq xs) # post"
    and lt: "\<forall>ys\<in>snd ` set (list_candidates pre). length ys < length xs"
    and le: "\<forall>ys\<in>snd ` set (list_candidates post). length ys \<le> length xs"
    and r: "json_rows (Map kvs) = map (\<lambda>item. add_non_list_fields kvs (flatten_json item (KStr []))) xs"
    by (elim exE conjE) (rule that, assumption+)
  note b = chosen_list_bounds [OF s lt le]
  have len: "length (json_rows (Map kvs)) = length xs" by (simp only: r length_map)
  have n: "nrows (DataFrame (json_rows (Map kvs))) = length xs"
    by (simp add: DataFrame_def len del: json_rows.simps)
  have l: "load fp = Inr (Map kvs) \<longrightarrow>
      extract_json_safely load fp = Inr (DataFrame (json_rows (Map kvs)))"
    by (simp add: extract_json_safely_def)
  have bc: "\<forall>i<length xs. \<forall>(k', v)\<in>set kvs. \<not> is_list v \<longrightarrow>
      map_of (json_rows (Map kvs) ! i) k' = Some v \<and>
      map_of (to_dict_records (DataFrame (json_rows (Map kvs))) ! i) k' = Some v"
  proof (intro allI impI, clarify)
    fix i k' v assume i: "i < length xs" and m: "(k', v) \<in> set kvs" and v: "\<not> is_list v"
    have "json_rows (Map kvs) ! i = add_non_list_fields kvs (flatten_json (xs ! i) (KStr []))"
      using i by (simp only: r nth_map)
    then have c: "map_of (json_rows (Map kvs) ! i) k' = Some v"
      using add_non_list_fields_root [OF assms(1) m v] by (simp del: json_rows.simps)
    have "i < length (json_rows (Map kvs))" using i by (simp only: len)
    from frame_cell [OF this c] c
    show "map_of (json_rows (Map kvs) ! i) k' = Some v \<and>
      map_of (to_dict_records (DataFrame (json_rows (Map kvs))) ! i) k' = Some v" by (simp del: json_rows.simps)
  qed
  have two: "\<forall>k1 xs1 k2 xs2.
      list_candidates kvs = [(k1, xs1), (k2, xs2)] \<and>
      (length xs1 = 3 \<and> length xs2 = 5 \<or> length xs1 = 5 \<and> length xs2 = 3)
      \<longrightarrow> length xs = 5 \<and> length (json_rows (Map kvs)) = 5"
  proof (intro allI impI)
    fix k1 xs1 k2 xs2
    assume h: "list_candidates kvs = [(k1, xs1), (k2, xs2)] \<and>
      (length xs1 = 3 \<and> length xs2 = 5 \<or> length xs1 = 5 \<and> length xs2 = 3)"
    then have lc: "list_candidates kvs = [(k1, xs1), (k2, xs2)]" by simp
    have "(k1, xs1) \<in> set (list_candidates kvs)" "(k2, xs2) \<in> set (list_candidates kvs)"
      by (simp_all add: lc)
    with b(3) have "length xs1 \<le> length xs" "length xs2 \<le> length xs" by fast+
    moreover have "xs = xs1 \<or> xs = xs2" using b(4) by (auto simp: lc)
    ultimately have "length xs = 5" using h by auto
    then show "length xs = 5 \<and> length (json_rows (Map kvs)) = 5" using len by (simp del: json_rows.simps)
  qed
  show ?thesis
    apply (rule exI [of _ pre], rule exI [of _ k], rule exI [of _ xs], rule exI [of _ post])
    apply (rule conjI, rule s)
    apply (rule conjI, rule b(1))
    apply (rule conjI, rule b(2))
    apply (rule conjI, rule r)
    apply (rule conjI, rule len)
    apply (rule conjI, rule n)
    apply (rule conjI, rule l)
    apply (rule conjI, rule bc)
    apply (rule two)
    done
qed

lemma two_lists_rows: "length (json_rows (Map two_lists_doc)) = 5"
  by code_simp

lemma tie_facts:
  "distinct (map fst tie_doc)" "list_ex (\<lambda>(k, v). is_list v) tie_doc"
  by code_simp+

lemma tie_rows:
  "json_rows (Map tie_doc) =
     [[(KStr ''unknown'', Scalar (SInt 1)), (KStr ''k'', Scalar (SStr ''v''))],
      [(KStr ''unknown'', Scalar (SInt 2)), (KStr ''k'', Scalar (SStr ''v''))]]"
  by code_simp

theorem largest_list_gives_rows_witness:
  "distinct (map fst tie_doc) \<and> list_ex (\<lambda>(k, v). is_list v) tie_doc \<and>
   json_rows (Map tie_doc) =
     [[(KStr ''unknown'', Scalar (SInt 1)), (KStr ''k'', Scalar (SStr ''v''))],
      [(KStr ''unknown'', Scalar (SInt 2)), (KStr ''k'', Scalar (SStr ''v''))]] \<and>
   length (json_rows (Map two_lists_doc)) = 5"
  using largest_list_gives_rows [OF tie_facts, of "\<lambda>p. Inr (Map tie_doc)" "''f''"]
  apply -
  apply (intro conjI)
     apply (rule tie_facts(1))
    apply (rule tie_facts(2))
   apply (rule tie_rows)
  apply (rule two_lists_rows)
  done

end
